theory Spec2Isabelle
  imports Complex_Main "HOL-Library.AList"
begin

section \<open>Heatmap generation notebook: data model\<close>

text \<open>
  The notebook defines \<^verbatim>\<open>make_heatmap_fig\<close>, \<^verbatim>\<open>write_one_heatmap\<close> and a frame export
  loop. Region ids are Python/numpy integers (\<^verbatim>\<open>astype(np.int)\<close>), modelled as \<^typ>\<open>int\<close>.
  Metric values are double precision numbers in the notebook; a double is a rational, so
  they are values of \<^typ>\<open>rat\<close> here. The float operations of the display bound (lines 134
  and 274) round to the nearest double, as defined below; the product with the correction
  factor (line 113) is kept exact in the table, and is rounded where the display bound
  reads the column. NaN cells of the CSV file are outside the model (a missing id is the
  only source of an empty cell).
  A DataFrame is the list of its rows, projected on the two columns the code uses,
  \<^verbatim>\<open>"id"\<close> and \<^verbatim>\<open>col_name\<close>.
\<close>

datatype py_error =
    ValueError string
  | IndexError
  | AttributeError string
  | NameError string
  | FileNotFoundError string
  | OverflowError

type_synonym label_slice = "int list list"
type_synonym label_volume = "int list list list"
type_synonym dataframe = "(int \<times> rat) list"

subsection \<open>numpy helpers\<close>

text \<open>\<^verbatim>\<open>np.max\<close> of a flattened array; numpy raises ValueError on a zero-size array.\<close>

definition np_max :: "int list \<Rightarrow> py_error + int" where
  "np_max xs =
     (case xs of
        [] \<Rightarrow> Inl (ValueError ''zero-size array to reduction operation maximum which has no identity'')
      | x # rest \<Rightarrow> Inr (fold max rest x))"

definition ravel :: "label_volume \<Rightarrow> int list" where
  "ravel anno = concat (concat anno)"

text \<open>
  Index normalisation of numpy (and of Python sequences): an index in \<open>[0, n)\<close> is itself,
  an index in \<open>[-n, 0)\<close> counts from the end, anything else raises IndexError.
\<close>

definition np_index :: "nat \<Rightarrow> int \<Rightarrow> py_error + nat" where
  "np_index n i =
     (if 0 \<le> i \<and> i < int n then Inr (nat i)
      else if - int n \<le> i \<and> i < 0 then Inr (nat (i + int n))
      else Inl IndexError)"

definition np_getitem :: "'a list \<Rightarrow> int \<Rightarrow> py_error + 'a" where
  "np_getitem xs i = (case np_index (length xs) i of Inl e \<Rightarrow> Inl e | Inr j \<Rightarrow> Inr (xs ! j))"

fun sequence :: "(py_error + 'a) list \<Rightarrow> py_error + 'a list" where
  "sequence [] = Inr []"
| "sequence (x # xs) =
     (case x of
        Inl e \<Rightarrow> Inl e
      | Inr y \<Rightarrow> (case sequence xs of Inl e \<Rightarrow> Inl e | Inr ys \<Rightarrow> Inr (y # ys)))"

text \<open>\<^verbatim>\<open>mapping_ar[anno_slice]\<close>: fancy indexing of a 1D array by a 2D integer array.\<close>

definition np_take :: "'a list \<Rightarrow> int list list \<Rightarrow> py_error + 'a list list" where
  "np_take ar idx = sequence (map (\<lambda>row. sequence (map (np_getitem ar) row)) idx)"

text \<open>\<^verbatim>\<open>mapping_ar[k] = v\<close>: fancy assignment, element by element, a later write winning.\<close>

fun np_put :: "'a list \<Rightarrow> int list \<Rightarrow> 'a list \<Rightarrow> py_error + 'a list" where
  "np_put ar (i # is) (x # xs) =
     (case np_index (length ar) i of
        Inl e \<Rightarrow> Inl e
      | Inr j \<Rightarrow> np_put (ar[j := x]) is xs)"
| "np_put ar _ _ = Inr ar"

subsection \<open>pandas helpers\<close>

text \<open>\<^verbatim>\<open>counts[col_name] *= col_multiplier\<close>\<close>

definition scale_column :: "dataframe \<Rightarrow> rat \<Rightarrow> dataframe" where
  "scale_column counts col_multiplier = map (\<lambda>(i, v). (i, v * col_multiplier)) counts"

text \<open>
  \<^verbatim>\<open>.set_index("id").reindex(new_index)\<close>: one row per label of the new index, with an
  empty cell where the id is not in the table. pandas refuses to reindex an axis that
  has duplicate labels.
\<close>

definition reindex :: "dataframe \<Rightarrow> int list \<Rightarrow> py_error + (int \<times> rat option) list" where
  "reindex df new_index =
     (if \<not> distinct (map fst df) \<and> new_index \<noteq> []
      then Inl (ValueError ''cannot reindex from a duplicate axis'')
      else Inr (map (\<lambda>i. (i, map_of df i)) new_index))"

definition fillna :: "rat \<Rightarrow> (int \<times> rat option) list \<Rightarrow> (int \<times> rat) list" where
  "fillna d rows = map (\<lambda>(i, c). (i, case c of None \<Rightarrow> d | Some v \<Rightarrow> v)) rows"

section \<open>Region value mapper\<close>

text \<open>
  Lines 114--126 of \<^verbatim>\<open>make_heatmap_fig\<close> (the same statements prepare the frame export):
  the dictionary from every id in \<open>0..id_max\<close> to its metric, 0 where the table has no
  row, and 0 for the root id 0. A Python dict keeps insertion order; it is an association
  list here, \<^const>\<open>AList.update\<close> being item assignment.
\<close>

definition make_counts_dict :: "label_volume \<Rightarrow> dataframe \<Rightarrow> py_error + (int \<times> rat) list" where
  "make_counts_dict anno counts =
     (case np_max (ravel anno) of
        Inl e \<Rightarrow> Inl e
      | Inr id_max \<Rightarrow>
          (let new_index = [0..id_max] in
           case reindex counts new_index of
             Inl e \<Rightarrow> Inl e
           | Inr reindexed \<Rightarrow>
               (let counts_list = fillna 0 reindexed;
                    counts_dict = fold (\<lambda>(old, new). AList.update old new) counts_list []
                in Inr (AList.update 0 0 counts_dict))))"

text \<open>
  Lines 152--155 (repeated at 185--188 and 284--287): the dense Lookup Array
  \<^verbatim>\<open>mapping_ar\<close> of a dictionary.
\<close>

definition mapping_ar :: "(int \<times> rat) list \<Rightarrow> py_error + rat list" where
  "mapping_ar counts_dict =
     (let k = map fst counts_dict;
          v = map snd counts_dict
      in case np_max k of
           Inl e \<Rightarrow> Inl e
         | Inr kmax \<Rightarrow>
             if kmax + 1 < 0 then Inl (ValueError ''negative dimensions are not allowed'')
             else np_put (replicate (nat (kmax + 1)) 0) k v)"

text \<open>
  Python 3 \<^verbatim>\<open>round\<close> with one argument: to the nearest integer, a tie going to the even
  neighbour. The builtin \<^verbatim>\<open>max\<close> raises ValueError on an empty sequence.
\<close>

definition py_round :: "rat \<Rightarrow> int" where
  "py_round x =
     (let f = \<lfloor>x\<rfloor>; d = x - of_int f
      in if d < 1 / 2 then f
         else if 1 / 2 < d then f + 1
         else if even f then f else f + 1)"

definition py_max :: "rat list \<Rightarrow> py_error + rat" where
  "py_max xs =
     (case xs of
        [] \<Rightarrow> Inl (ValueError ''max() arg is an empty sequence'')
      | x # rest \<Rightarrow> Inr (fold max rest x))"

subsection \<open>Double precision\<close>

text \<open>
  IEEE 754 binary64 with rounding to nearest, ties to even, on rationals.
  \<^verbatim>\<open>bit_length\<close> is Python's \<^verbatim>\<open>int.bit_length\<close> on positive integers; \<^verbatim>\<open>binade\<close> is
  the exponent \<open>e\<close> with \<open>2^e \<le> x < 2^(e+1)\<close> of a positive number; \<^verbatim>\<open>ulp\<close> is the
  spacing of the doubles around it, \<open>2^(e-52)\<close>, and \<open>2^(-1074)\<close> below the normal
  range. \<^verbatim>\<open>to_double\<close> is \<open>None\<close> where the rounded value is beyond the largest double
  (the float is \<^verbatim>\<open>inf\<close>).
\<close>

function bit_length :: "int \<Rightarrow> int" where
  "bit_length n = (if n \<le> 0 then 0 else 1 + bit_length (n div 2))"
  by pat_completeness auto
termination
  by (relation "measure nat") auto

declare bit_length.simps [simp del]

definition binade :: "rat \<Rightarrow> int" where
  "binade x = (if 1 \<le> x then bit_length \<lfloor>x\<rfloor> - 1 else - bit_length (\<lceil>1 / x\<rceil> - 1))"

definition ulp :: "rat \<Rightarrow> rat" where
  "ulp x = 2 powi (max (binade x) (- 1022) - 52)"

definition nearest_double :: "rat \<Rightarrow> rat" where
  "nearest_double x =
     (if x = 0 then 0
      else if 0 < x then of_int (py_round (x / ulp x)) * ulp x
      else - (of_int (py_round (- x / ulp (- x))) * ulp (- x)))"

definition to_double :: "rat \<Rightarrow> rat option" where
  "to_double x =
     (let y = nearest_double x in if y \<noteq> 0 \<and> 1024 \<le> binade \<bar>y\<bar> then None else Some y)"

text \<open>The double that the literal \<^verbatim>\<open>1.1\<close> denotes.\<close>

definition float_1_1 :: rat where
  "float_1_1 = 2476979795053773 / 2251799813685248"

text \<open>
  The float \<^verbatim>\<open>max(counts[col_name]) * 1.1 / round_to\<close> of lines 134 and 274, for the
  maximum \<^verbatim>\<open>m\<close> of the column. Each operand enters as a double and each operation rounds.
  An infinite or undefined float is carried as the exception that \<^verbatim>\<open>round\<close> raises
  on it: OverflowError for \<^verbatim>\<open>inf\<close>, ValueError for \<^verbatim>\<open>nan\<close> (zero divided by a zero
  \<^verbatim>\<open>round_to\<close>).
\<close>

definition legend_quotient :: "rat \<Rightarrow> rat \<Rightarrow> py_error + rat" where
  "legend_quotient m round_to =
     (case to_double m of
        None \<Rightarrow> Inl OverflowError
      | Some m_f \<Rightarrow>
     (case to_double (m_f * float_1_1) of
        None \<Rightarrow> Inl OverflowError
      | Some scaled \<Rightarrow>
     (case to_double round_to of
        None \<Rightarrow> Inl OverflowError
      | Some r_f \<Rightarrow>
          if r_f = 0
          then (if scaled = 0 then Inl (ValueError ''cannot convert float NaN to integer'')
                else Inl OverflowError)
          else (case to_double (scaled / r_f) of
                  None \<Rightarrow> Inl OverflowError
                | Some q \<Rightarrow> Inr q))))"

text \<open>
  Lines 134 and 274: the upper bound of the legend and of the colour scale, from the
  metric column as it stands when the line runs (in \<^verbatim>\<open>make_heatmap_fig\<close> the column has
  been multiplied by \<^verbatim>\<open>col_multiplier\<close> already). \<^verbatim>\<open>round\<close> gives an integer, so the
  addition of 1 and the product with \<^verbatim>\<open>round_to\<close> are exact (for a float \<^verbatim>\<open>round_to\<close>:
  as long as the bound stays below \<open>2^53\<close>).
\<close>

definition density_bound :: "dataframe \<Rightarrow> rat \<Rightarrow> py_error + rat" where
  "density_bound counts round_to =
     (case py_max (map snd counts) of
        Inl e \<Rightarrow> Inl e
      | Inr m \<Rightarrow>
          (case legend_quotient m round_to of
             Inl e \<Rightarrow> Inl e
           | Inr q \<Rightarrow> Inr (round_to * (of_int (py_round q) + 1))))"

section \<open>Boundary overlay\<close>

text \<open>
  \<^verbatim>\<open>find_boundaries\<close> and \<^verbatim>\<open>dilation\<close> are functions of scikit-image, which the
  notebook imports. \<^verbatim>\<open>footprint\<close> is the structuring element of a connectivity (1: the
  pixel and its 4 edge neighbours, the default of both functions; 2: the 3x3 square);
  \<^verbatim>\<open>window\<close> lists the values the footprint covers around a pixel, inside the image.
\<close>

definition footprint :: "nat \<Rightarrow> (int \<times> int) list" where
  "footprint connectivity =
     filter (\<lambda>(dr, dc). \<bar>dr\<bar> + \<bar>dc\<bar> \<le> max 1 (int connectivity))
       (concat (map (\<lambda>dr. map (\<lambda>dc. (dr, dc)) [-1, 0, 1]) [-1, 0, 1]))"

definition pixel :: "'a list list \<Rightarrow> int \<Rightarrow> int \<Rightarrow> 'a option" where
  "pixel img r c =
     (if 0 \<le> r \<and> r < int (length img)
      then (let row = img ! nat r
            in if 0 \<le> c \<and> c < int (length row) then Some (row ! nat c) else None)
      else None)"

definition window :: "nat \<Rightarrow> 'a list list \<Rightarrow> nat \<Rightarrow> nat \<Rightarrow> 'a list" where
  "window connectivity img r c =
     List.map_filter (\<lambda>(dr, dc). pixel img (int r + dr) (int c + dc)) (footprint connectivity)"

text \<open>
  Modelled from the spec: \<^verbatim>\<open>skimage.segmentation.find_boundaries\<close> in mode "thick" is
  library code outside the repository. The spec: a pixel is marked if it sits on a
  transition between two different region ids in the slice; that is, if its window holds
  an id other than its own.
\<close>

definition find_boundaries :: "nat \<Rightarrow> label_slice \<Rightarrow> bool list list" where
  "find_boundaries connectivity label_img =
     map (\<lambda>r. map (\<lambda>c. list_ex (\<lambda>v. v \<noteq> label_img ! r ! c) (window connectivity label_img r c))
                 [0..<length (label_img ! r)])
         [0..<length label_img]"

text \<open>\<^verbatim>\<open>.astype(np.float)\<close> of a boolean image.\<close>

definition astype_float :: "bool list list \<Rightarrow> rat list list" where
  "astype_float img = map (map (\<lambda>b. if b then 1 else 0)) img"

text \<open>
  Modelled from the spec: \<^verbatim>\<open>skimage.morphology.dilation\<close> with its default footprint is
  library code outside the repository. The spec: dilate the mask by one
  structuring-element pass; every pixel becomes the maximum of its window.
\<close>

definition dilation :: "nat \<Rightarrow> rat list list \<Rightarrow> rat list list" where
  "dilation connectivity img =
     map (\<lambda>r. map (\<lambda>c. fold max (window connectivity img r c) (img ! r ! c))
                 [0..<length (img ! r)])
         [0..<length img]"

text \<open>\<^verbatim>\<open>boundaries[boundaries < 0.5] = np.nan\<close>: NaN is \<open>None\<close>.\<close>

definition nan_below_half :: "rat list list \<Rightarrow> rat option list list" where
  "nan_below_half img = map (map (\<lambda>x. if x < 1 / 2 then None else Some x)) img"

text \<open>
  The three statements that follow \<^verbatim>\<open>anno_slice = anno[z]\<close> in each of the three
  rendering paths (lines 146--148, 181--183, 280--282). The connectivity is a parameter,
  since the spec leaves it open (4 or 8 neighbours); the calls of the source leave it at
  the library's default 1.
\<close>

definition boundary_mask :: "nat \<Rightarrow> label_slice \<Rightarrow> rat option list list" where
  "boundary_mask connectivity anno_slice =
     nan_below_half (dilation 1 (astype_float (find_boundaries connectivity anno_slice)))"

definition relabel :: "(int \<Rightarrow> int) \<Rightarrow> label_slice \<Rightarrow> label_slice" where
  "relabel f anno_slice = map (map f) anno_slice"

section \<open>Strings\<close>

text \<open>\<^verbatim>\<open>str\<close> of an integer, \<^verbatim>\<open>str.zfill\<close>, and \<^verbatim>\<open>str\<close> of a pair of integers.\<close>

definition digit_char :: "nat \<Rightarrow> char" where
  "digit_char d = ''0123456789'' ! d"

fun str_nat :: "nat \<Rightarrow> string" where
  "str_nat n = (if n < 10 then [digit_char n] else str_nat (n div 10) @ [digit_char (n mod 10)])"

declare str_nat.simps [simp del]

definition str_int :: "int \<Rightarrow> string" where
  "str_int i = (if i < 0 then CHR ''-'' # str_nat (nat (- i)) else str_nat (nat i))"




text \<open>\<^verbatim>\<open>fig_layout\<close> is a tuple or a list of two integers.\<close>

datatype py_pair = PyTuple int int | PyList int int

fun item0 :: "py_pair \<Rightarrow> int" where
  "item0 (PyTuple a b) = a"
| "item0 (PyList a b) = a"

fun item1 :: "py_pair \<Rightarrow> int" where
  "item1 (PyTuple a b) = b"
| "item1 (PyList a b) = b"

fun str_pair :: "py_pair \<Rightarrow> string" where
  "str_pair (PyTuple a b) = ''('' @ str_int a @ '', '' @ str_int b @ '')''"
| "str_pair (PyList a b) = ''['' @ str_int a @ '', '' @ str_int b @ '']''"

text \<open>The message of line 105.\<close>

definition layout_message :: "py_pair \<Rightarrow> nat \<Rightarrow> string" where
  "layout_message fig_layout n =
     str_pair fig_layout @ '' plot layout doens't have enough subplots for ''
       @ str_nat n @ '' slices!''"

section \<open>Figures\<close>

text \<open>
  What matplotlib is asked to draw: a panel is the heatmap layer (first \<^verbatim>\<open>imshow\<close>) under
  the boundary layer (second \<^verbatim>\<open>imshow\<close>); a figure is its panels and one colour bar.
\<close>

record colormap =
  cmap_name :: string
  bad_alpha :: "rat option"

definition get_cmap :: "string \<Rightarrow> colormap" where
  "get_cmap name = \<lparr>cmap_name = name, bad_alpha = None\<rparr>"

definition set_bad :: "colormap \<Rightarrow> rat \<Rightarrow> colormap" where
  "set_bad cm alpha = cm\<lparr>bad_alpha := Some alpha\<rparr>"

record panel =
  heat :: "rat list list"
  heat_cmap :: string
  heat_vmin :: rat
  heat_vmax :: rat
  border :: "rat option list list"
  border_cmap_used :: colormap
  border_vmin :: rat
  border_vmax :: rat
  border_alpha :: rat
  axis_off :: bool

record colorbar =
  cbar_axes :: "rat list"
  horizontal :: bool
  ticks :: "rat list"
  tick_labelsize :: rat
  title :: string
  title_fontsize :: rat
  title_pad :: "rat option"

record figure =
  size_inches :: "rat list"
  panels :: "panel list"
  cbar :: colorbar

record image_file =
  path :: string
  content :: figure
  file_dpi :: rat
  tight :: bool

text \<open>
  \<^verbatim>\<open>plt.subplots(nrows, ncols)\<close> returns one Axes object for a 1x1 grid and an array of
  Axes otherwise; it makes the last subplot the current one.
\<close>

datatype axes = Axes | AxesArray nat

definition subplots :: "int \<Rightarrow> int \<Rightarrow> py_error + axes" where
  "subplots nrows ncols =
     (if nrows \<le> 0 \<or> ncols \<le> 0 then Inl (ValueError ''Number of rows and columns must be positive'')
      else if nrows * ncols = 1 then Inr Axes
      else Inr (AxesArray (nat (nrows * ncols))))"

text \<open>
  The world outside the interpreter: the files that can be read, the log of reads, the
  image files written by \<^verbatim>\<open>savefig\<close> and the figures displayed by \<^verbatim>\<open>plt.show\<close>.
\<close>

record world =
  tiff_files :: "string \<rightharpoonup> label_volume"
  csv_files :: "string \<rightharpoonup> dataframe"
  reads :: "string list"
  written :: "image_file list"
  shown :: "figure list"

definition imread :: "world \<Rightarrow> string \<Rightarrow> (py_error + label_volume) \<times> world" where
  "imread w file =
     (case tiff_files w file of
        None \<Rightarrow> (Inl (FileNotFoundError file), w\<lparr>reads := reads w @ [file]\<rparr>)
      | Some anno \<Rightarrow> (Inr anno, w\<lparr>reads := reads w @ [file]\<rparr>))"

definition read_csv :: "world \<Rightarrow> string \<Rightarrow> (py_error + dataframe) \<times> world" where
  "read_csv w file =
     (case csv_files w file of
        None \<Rightarrow> (Inl (FileNotFoundError file), w\<lparr>reads := reads w @ [file]\<rparr>)
      | Some counts \<Rightarrow> (Inr counts, w\<lparr>reads := reads w @ [file]\<rparr>))"

section \<open>make\_heatmap\_fig\<close>

text \<open>
  The keyword parameters shared by the two functions, then those of
  \<^verbatim>\<open>make_heatmap_fig\<close>. (\<^verbatim>\<open>col_name\<close> has selected the metric column of the table.)
\<close>

record plot_args =
  fig_size :: "rat list"
  cbar_dims :: "rat list"
  cmap :: string
  legend_title :: string
  round_to :: rat

record heatmap_args = plot_args +
  anno_file :: string
  cell_counts :: string
  zs :: "int list"
  fig_layout :: "py_pair option"
  col_multiplier :: rat
  legend_fontsize :: rat
  legend_numsize :: rat
  include_boxes :: bool
  output_file :: string

text \<open>
  Lines 144--163, the body of the branch \<^verbatim>\<open>len(zs) == 1\<close>. \<^verbatim>\<open>ax\<close> is what
  \<^verbatim>\<open>plt.subplots\<close> returned; an array of Axes has no \<^verbatim>\<open>imshow\<close>. \<^verbatim>\<open>plt.axis("off")\<close>
  of line 140 has hidden the decorations of the only subplot before.
\<close>

definition single_panel ::
  "label_volume \<Rightarrow> (int \<times> rat) list \<Rightarrow> colormap \<Rightarrow> rat \<Rightarrow> 'a heatmap_args_scheme \<Rightarrow> axes
     \<Rightarrow> py_error + panel" where
  "single_panel anno counts_dict custom_cmap bound a ax =
     (case np_getitem (zs a) 0 of
        Inl e \<Rightarrow> Inl e
      | Inr z \<Rightarrow>
     (case np_getitem anno z of
        Inl e \<Rightarrow> Inl e
      | Inr anno_slice \<Rightarrow>
     (let boundaries = boundary_mask 1 anno_slice in
      case mapping_ar counts_dict of
        Inl e \<Rightarrow> Inl e
      | Inr ar \<Rightarrow>
     (case np_take ar anno_slice of
        Inl e \<Rightarrow> Inl e
      | Inr new_slice \<Rightarrow>
     (case ax of
        AxesArray n \<Rightarrow> Inl (AttributeError ''imshow'')
      | Axes \<Rightarrow>
          Inr \<lparr>heat = new_slice, heat_cmap = cmap a, heat_vmin = 0, heat_vmax = bound,
               border = boundaries, border_cmap_used = custom_cmap,
               border_vmin = 0, border_vmax = 1, border_alpha = 4 / 10,
               axis_off = (True \<or> \<not> include_boxes a)\<rparr>)))))"

text \<open>
  Lines 180--195, the body of the loop of the branch \<^verbatim>\<open>len(zs) > 1\<close>, for the z-index
  \<^verbatim>\<open>z\<close> drawn on subplot \<^verbatim>\<open>i\<close> of \<^verbatim>\<open>n\<close>; \<^verbatim>\<open>plt.axis("off")\<close> of line 175 has hidden
  the decorations of the last subplot before.
\<close>

definition multi_panel ::
  "label_volume \<Rightarrow> (int \<times> rat) list \<Rightarrow> colormap \<Rightarrow> rat \<Rightarrow> 'a heatmap_args_scheme \<Rightarrow> nat \<Rightarrow> nat
     \<Rightarrow> int \<Rightarrow> py_error + panel" where
  "multi_panel anno counts_dict custom_cmap bound a n i z =
     (case np_getitem anno z of
        Inl e \<Rightarrow> Inl e
      | Inr anno_slice \<Rightarrow>
     (let boundaries = boundary_mask 1 anno_slice in
      case mapping_ar counts_dict of
        Inl e \<Rightarrow> Inl e
      | Inr ar \<Rightarrow>
     (case np_take ar anno_slice of
        Inl e \<Rightarrow> Inl e
      | Inr new_slice \<Rightarrow>
          Inr \<lparr>heat = new_slice, heat_cmap = cmap a, heat_vmin = 0, heat_vmax = bound,
               border = boundaries, border_cmap_used = custom_cmap,
               border_vmin = 0, border_vmax = 1, border_alpha = 5 / 10,
               axis_off = (Suc i = n \<or> \<not> include_boxes a)\<rparr>)))"

text \<open>The loop of line 179 over \<^verbatim>\<open>zip(zs, axes.reshape(-1))\<close>, from subplot \<^verbatim>\<open>i\<close> on.\<close>

fun multi_panels ::
  "label_volume \<Rightarrow> (int \<times> rat) list \<Rightarrow> colormap \<Rightarrow> rat \<Rightarrow> 'a heatmap_args_scheme \<Rightarrow> nat \<Rightarrow> nat
     \<Rightarrow> int list \<Rightarrow> py_error + panel list" where
  "multi_panels anno counts_dict custom_cmap bound a n i [] = Inr []"
| "multi_panels anno counts_dict custom_cmap bound a n i (z # rest) =
     (if n \<le> i then Inr []
      else case multi_panel anno counts_dict custom_cmap bound a n i z of
             Inl e \<Rightarrow> Inl e
           | Inr p \<Rightarrow>
               (case multi_panels anno counts_dict custom_cmap bound a n (Suc i) rest of
                  Inl e \<Rightarrow> Inl e
                | Inr ps \<Rightarrow> Inr (p # ps)))"

text \<open>
  Lines 113--203: everything between reading the two files and saving the figure.
  The colour bar of the multi-panel branch needs the \<^verbatim>\<open>im\<close> of a last panel.
\<close>

definition draw_figure ::
  "label_volume \<Rightarrow> dataframe \<Rightarrow> py_pair \<Rightarrow> 'a heatmap_args_scheme \<Rightarrow> py_error + figure" where
  "draw_figure anno counts0 layout a =
     (let counts = scale_column counts0 (col_multiplier a) in
      case make_counts_dict anno counts of
        Inl e \<Rightarrow> Inl e
      | Inr counts_dict \<Rightarrow>
     (let custom_cmap = set_bad (get_cmap ''Greys'') 0 in
      case density_bound counts (round_to a) of
        Inl e \<Rightarrow> Inl e
      | Inr bound \<Rightarrow>
          if length (zs a) = 1 then
            (case subplots (item0 layout) (item1 layout) of
               Inl e \<Rightarrow> Inl e
             | Inr ax \<Rightarrow>
            (case single_panel anno counts_dict custom_cmap bound a ax of
               Inl e \<Rightarrow> Inl e
             | Inr p \<Rightarrow>
                 Inr \<lparr>size_inches = fig_size a, panels = [p],
                      cbar = \<lparr>cbar_axes = cbar_dims a, horizontal = True,
                              ticks = [0, of_int (py_round bound)], tick_labelsize = 18,
                              title = legend_title a, title_fontsize = 20,
                              title_pad = None\<rparr>\<rparr>))
          else
            (case subplots (item0 layout) (item1 layout) of
               Inl e \<Rightarrow> Inl e
             | Inr Axes \<Rightarrow> Inl (AttributeError ''reshape'')
             | Inr (AxesArray n) \<Rightarrow>
            (case multi_panels anno counts_dict custom_cmap bound a n 0 (zs a) of
               Inl e \<Rightarrow> Inl e
             | Inr ps \<Rightarrow>
                 if ps = [] then Inl (NameError ''im'')
                 else
                   Inr \<lparr>size_inches = fig_size a, panels = ps,
                        cbar = \<lparr>cbar_axes = cbar_dims a, horizontal = True,
                                ticks = [0, of_int (py_round bound)],
                                tick_labelsize = legend_numsize a,
                                title = legend_title a, title_fontsize = legend_fontsize a,
                                title_pad = None\<rparr>\<rparr>))))"

text \<open>
  The whole function: the layout check of lines 101--105, the two reads of lines 107 and
  112, the figure, \<^verbatim>\<open>savefig\<close> when an output file is named, and \<^verbatim>\<open>plt.show\<close>.
\<close>

definition make_heatmap_fig :: "world \<Rightarrow> 'a heatmap_args_scheme \<Rightarrow> (py_error + unit) \<times> world" where
  "make_heatmap_fig w a =
     (let layout = (case fig_layout a of
                      None \<Rightarrow> PyTuple (int (length (zs a))) 1
                    | Some l \<Rightarrow> l)
      in if item0 layout * item1 layout < int (length (zs a))
         then (Inl (ValueError (layout_message layout (length (zs a)))), w)
         else
           (case imread w (anno_file a) of
              (Inl e, w1) \<Rightarrow> (Inl e, w1)
            | (Inr anno, w1) \<Rightarrow>
           (case read_csv w1 (cell_counts a) of
              (Inl e, w2) \<Rightarrow> (Inl e, w2)
            | (Inr counts, w2) \<Rightarrow>
           (case draw_figure anno counts layout a of
              Inl e \<Rightarrow> (Inl e, w2)
            | Inr fig \<Rightarrow>
                (let w3 = (if output_file a \<noteq> []
                           then w2\<lparr>written := written w2 @
                                   [\<lparr>path = output_file a, content = fig, file_dpi = 300,
                                     tight = False\<rparr>]\<rparr>
                           else w2)
                 in (Inr (), w3\<lparr>shown := shown w3 @ [fig]\<rparr>))))))"

section \<open>write\_one\_heatmap and the frame export\<close>

text \<open>
  The module-level names of the notebook that the frame export defines and that
  \<^verbatim>\<open>write_one_heatmap\<close> can see; \<^verbatim>\<open>custom_cmap\<close> is \<open>None\<close> before the cell of line 489
  has run.
\<close>

record globals =
  custom_cmap :: "colormap option"
  output_dir :: string
  output_ext :: string

record frame_args = plot_args +
  z :: int
  border_cmap :: colormap
  filename :: string
  dpi :: rat
  flip_x :: bool
  flip_y :: bool

text \<open>\<^verbatim>\<open>np.flip(a, 1)\<close> reverses every row, \<^verbatim>\<open>np.flip(a, 0)\<close> the order of the rows.\<close>

definition flip1 :: "'a list list \<Rightarrow> 'a list list" where
  "flip1 img = map rev img"

definition flip0 :: "'a list list \<Rightarrow> 'a list list" where
  "flip0 img = rev img"

text \<open>
  Lines 274--307. The second \<^verbatim>\<open>imshow\<close> (line 298) names \<^verbatim>\<open>custom_cmap\<close>, which is not
  a parameter or a local of the function: Python looks it up among the globals and raises
  NameError when it is not defined.
\<close>

definition write_one_heatmap ::
  "globals \<Rightarrow> world \<Rightarrow> label_volume \<Rightarrow> dataframe \<Rightarrow> (int \<times> rat) list \<Rightarrow> 'a frame_args_scheme
     \<Rightarrow> (py_error + unit) \<times> world" where
  "write_one_heatmap g w anno counts counts_dict a =
     (case density_bound counts (round_to a) of
        Inl e \<Rightarrow> (Inl e, w)
      | Inr bound \<Rightarrow>
     (case np_getitem anno (z a) of
        Inl e \<Rightarrow> (Inl e, w)
      | Inr anno_slice \<Rightarrow>
     (let boundaries = boundary_mask 1 anno_slice in
      case mapping_ar counts_dict of
        Inl e \<Rightarrow> (Inl e, w)
      | Inr ar \<Rightarrow>
     (case np_take ar anno_slice of
        Inl e \<Rightarrow> (Inl e, w)
      | Inr new_slice0 \<Rightarrow>
     (let new_slice1 = (if flip_x a then flip1 new_slice0 else new_slice0);
          boundaries1 = (if flip_x a then flip1 boundaries else boundaries);
          new_slice = (if flip_y a then flip0 new_slice1 else new_slice1);
          boundaries2 = (if flip_y a then flip0 boundaries1 else boundaries1)
      in case custom_cmap g of
           None \<Rightarrow> (Inl (NameError ''custom_cmap''), w)
         | Some overlay_cmap \<Rightarrow>
             (let p = \<lparr>heat = new_slice, heat_cmap = cmap a, heat_vmin = 0, heat_vmax = bound,
                       border = boundaries2, border_cmap_used = overlay_cmap,
                       border_vmin = 0, border_vmax = 1, border_alpha = 4 / 10,
                       axis_off = True\<rparr>;
                  fig = \<lparr>size_inches = fig_size a, panels = [p],
                         cbar = \<lparr>cbar_axes = cbar_dims a, horizontal = False,
                                 ticks = [0, of_int (py_round bound)], tick_labelsize = 20,
                                 title = legend_title a, title_fontsize = 24,
                                 title_pad = Some 18\<rparr>\<rparr>
              in (Inr (), w\<lparr>written := written w @
                              [\<lparr>path = filename a, content = fig, file_dpi = dpi a,
                                tight = True\<rparr>]\<rparr>)))))))"



section \<open>The scenarios of the specification\<close>

text \<open>The label slice of the rendering scenario.\<close>

definition example_slice :: label_slice where
  "example_slice = [[1, 1, 2], [1, 1, 2], [3, 3, 2]]"

text \<open>The default values of the keyword parameters of \<^verbatim>\<open>make_heatmap_fig\<close> (lines 48--59).\<close>

definition heatmap_defaults :: "string \<Rightarrow> string \<Rightarrow> int list \<Rightarrow> heatmap_args" where
  "heatmap_defaults anno_file_arg cell_counts_arg zs_arg =
     \<lparr>fig_size = [8, 8], cbar_dims = [725 / 1000, 75 / 1000, 15 / 100, 25 / 1000],
      cmap = ''hot_r'', legend_title = ''Cells per $mm^3$'', round_to = 10,
      anno_file = anno_file_arg, cell_counts = cell_counts_arg, zs = zs_arg,
      fig_layout = None, col_multiplier = 1, legend_fontsize = 20, legend_numsize = 18,
      include_boxes = False, output_file = ''''\<rparr>"

text \<open>A world without files, and the calls of the scenarios.\<close>

definition no_files :: world where
  "no_files = \<lparr>tiff_files = Map.empty, csv_files = Map.empty, reads = [], written = [], shown = []\<rparr>"

definition nine_slices :: heatmap_args where
  "nine_slices =
     (heatmap_defaults ''anno.tiff'' ''counts.csv'' [200, 350, 500, 650, 800, 950, 1100, 1250, 1400])
       \<lparr>fig_layout := Some (PyTuple 2 4)\<rparr>"


text \<open>A relabelling that exchanges the regions 1 and 3.\<close>

definition swap_1_3 :: "int \<Rightarrow> int" where
  "swap_1_3 l = (if l = 1 then 3 else if l = 3 then 1 else l)"

text \<open>
  The globals after the cells of lines 409--490 have run with the values written there,
  and a call of \<^verbatim>\<open>write_one_heatmap\<close> that is handed another border colormap.
\<close>

definition notebook_globals :: globals where
  "notebook_globals =
     \<lparr>custom_cmap = Some (set_bad (get_cmap ''Greys'') 0),
      output_dir = ''heatmap_anim_pngs/'', output_ext = ''.png''\<rparr>"

definition one_frame :: frame_args where
  "one_frame =
     \<lparr>fig_size = [8, 8], cbar_dims = [9 / 10, 15 / 100, 5 / 100, 6 / 10], cmap = ''hot_r'',
      legend_title = ''Cells per $mm^3$'', round_to = 500,
      z = 0, border_cmap = get_cmap ''viridis'', filename = ''img_0000.png'', dpi = 300,
      flip_x = False, flip_y = False\<rparr>"


text \<open>
  A world with one annotation volume of a single slice and one table, and two calls on it
  that differ in the number of z-indices only: one takes the single-panel branch, the other
  the multi-panel branch.
\<close>

definition one_volume :: world where
  "one_volume =
     \<lparr>tiff_files = [''anno.tiff'' \<mapsto> [[[1, 2], [2, 2]]]],
      csv_files = [''counts.csv'' \<mapsto> [(1, 900), (2, 1240)]],
      reads = [], written = [], shown = []\<rparr>"

definition single_call :: heatmap_args where
  "single_call = (heatmap_defaults ''anno.tiff'' ''counts.csv'' [0])
     \<lparr>legend_fontsize := 40, legend_numsize := 30\<rparr>"

definition multi_call :: heatmap_args where
  "multi_call = (heatmap_defaults ''anno.tiff'' ''counts.csv'' [0, 0])
     \<lparr>legend_fontsize := 40, legend_numsize := 30\<rparr>"


section \<open>Properties of the region value mapper\<close>

lemma update_fresh: "k \<notin> fst ` set ys \<Longrightarrow> AList.update k v ys = ys @ [(k, v)]"
  by (induction ys) auto

lemma fold_update_distinct:
  "distinct (map fst (ys @ xs)) \<Longrightarrow> fold (\<lambda>(old, new). AList.update old new) xs ys = ys @ xs"
proof (induction xs arbitrary: ys)
  case Nil
  then show ?case by simp
next
  case (Cons p xs)
  obtain k v where p: "p = (k, v)" by (cases p)
  from Cons.prems have fresh: "k \<notin> fst ` set ys" by (auto simp: p)
  from Cons.prems have "distinct (map fst ((ys @ [(k, v)]) @ xs))" by (simp add: p)
  from Cons.IH [OF this] show ?case by (simp add: p update_fresh [OF fresh])
qed

lemma fold_max_upto: "0 \<le> M \<Longrightarrow> fold max [1..M] (0::int) = M"
proof -
  assume M: "0 \<le> M"
  have "fold max [1..M] (0::int) = Max (set (0 # [1..M]))" by (simp only: Max.set_eq_fold)
  also have "set (0 # [1..M]) = {0..M}" using M by auto
  also have "Max {0..M} = M" using M by (simp add: Max_eq_iff)
  finally show ?thesis .
qed

text \<open>
  Writing a dictionary with distinct keys, all inside the array, leaves at every index the
  value of that key, or what the array held.
\<close>

lemma np_put_spec:
  "distinct (map fst d) \<Longrightarrow> \<forall>k \<in> fst ` set d. 0 \<le> k \<and> k < int (length ar) \<Longrightarrow>
   \<exists>ar'. np_put ar (map fst d) (map snd d) = Inr ar' \<and> length ar' = length ar \<and>
     (\<forall>j < length ar. ar' ! j = (case map_of d (int j) of Some v \<Rightarrow> v | None \<Rightarrow> ar ! j))"
proof (induction d arbitrary: ar)
  case Nil
  then show ?case by simp
next
  case (Cons p d)
  obtain k v where p: "p = (k, v)" by (cases p)
  from Cons.prems have k: "0 \<le> k" "k < int (length ar)" by (auto simp: p)
  from Cons.prems have dist: "distinct (map fst d)" and fresh: "k \<notin> fst ` set d" by (auto simp: p)
  from Cons.prems have rng: "\<forall>k \<in> fst ` set d. 0 \<le> k \<and> k < int (length (ar[nat k := v]))"
    by (auto simp: p)
  from Cons.IH [OF dist, of "ar[nat k := v]"] rng obtain ar' where
    put: "np_put (ar[nat k := v]) (map fst d) (map snd d) = Inr ar'" and
    len: "length ar' = length ar" and
    nth: "\<forall>j < length ar. ar' ! j = (case map_of d (int j) of Some w \<Rightarrow> w | None \<Rightarrow> ar[nat k := v] ! j)"
    by auto
  have step: "np_put ar (map fst (p # d)) (map snd (p # d)) = Inr ar'"
    using k put by (simp add: p np_index_def)
  have "ar' ! j = (case map_of (p # d) (int j) of Some w \<Rightarrow> w | None \<Rightarrow> ar ! j)" if j: "j < length ar" for j
  proof (cases "int j = k")
    case True
    then have "map_of d (int j) = None" using fresh by (simp add: map_of_eq_None_iff)
    with nth j True show ?thesis by (auto simp: p)
  next
    case False
    then have "nat k \<noteq> j" using k by auto
    with nth j False show ?thesis by (auto simp: p split: option.splits)
  qed
  with step len show ?case by blast
qed

lemma map_fst_scale_column: "map fst (scale_column counts c) = map fst counts"
  by (induction counts) (auto simp: scale_column_def)

lemma map_of_scale_column:
  "map_of (scale_column counts c) i = map_option (\<lambda>v. v * c) (map_of counts i)"
  by (induction counts) (auto simp: scale_column_def)

lemma map_of_filter_le:
  "i \<le> M \<Longrightarrow> map_of (filter (\<lambda>(j, v). j \<le> M) counts) i = map_of counts (i::int)"
  by (induction counts) auto

text \<open>The dictionary of a volume whose largest id is \<open>M \<ge> 0\<close>, in closed form.\<close>

lemma make_counts_dict_eq:
  assumes "np_max (ravel anno) = Inr M" and "0 \<le> M" and "distinct (map fst counts)"
  shows "make_counts_dict anno counts =
           Inr ((0, 0) # map (\<lambda>i. (i, case map_of counts i of None \<Rightarrow> 0 | Some v \<Rightarrow> v)) [1..M])"
proof -
  let ?f = "\<lambda>i. case map_of counts i of None \<Rightarrow> 0 | Some v \<Rightarrow> (v::rat)"
  have re: "reindex counts [0..M] = Inr (map (\<lambda>i. (i, map_of counts i)) [0..M])"
    using assms(3) by (simp add: reindex_def)
  have fi: "fillna 0 (map (\<lambda>i. (i, map_of counts i)) [0..M]) = map (\<lambda>i. (i, ?f i)) [0..M]"
    by (simp add: fillna_def)
  have "distinct (map fst ([] @ map (\<lambda>i. (i, ?f i)) [0..M]))"
    by (simp add: comp_def)
  then have fo: "fold (\<lambda>(old, new). AList.update old new) (map (\<lambda>i. (i, ?f i)) [0..M]) []
      = map (\<lambda>i. (i, ?f i)) [0..M]"
    using fold_update_distinct [of "[]" "map (\<lambda>i. (i, ?f i)) [0..M]"] by simp
  have up: "[0..M] = 0 # [1..M]" using assms(2) by (simp add: upto_rec1)
  show ?thesis
    unfolding make_counts_dict_def assms(1) by (simp add: re fi fo Let_def) (simp add: up)
qed

lemma make_counts_dict_neg:
  assumes "np_max (ravel anno) = Inr M" and "M < 0"
  shows "make_counts_dict anno counts = Inr [(0, 0)]"
  unfolding make_counts_dict_def assms(1) using assms(2)
  by (simp add: reindex_def fillna_def)

lemma mapping_ar_dense:
  assumes "0 \<le> M"
  shows "\<exists>ar. mapping_ar ((0, 0) # map (\<lambda>i. (i, f i)) [1..M]) = Inr ar \<and> length ar = nat (M + 1) \<and>
           ar ! 0 = 0 \<and> (\<forall>i \<in> {1..M}. ar ! nat i = f i)"
proof -
  let ?d = "(0, 0) # map (\<lambda>i. (i, f i)) [1..M]"
  let ?z = "replicate (nat (M + 1)) (0::rat)"
  have keys: "map fst ?d = 0 # [1..M]" by (simp add: comp_def)
  have dist: "distinct (map fst ?d)" unfolding keys by simp
  have rng: "\<forall>k \<in> fst ` set ?d. 0 \<le> k \<and> k < int (length ?z)" using assms by auto
  from np_put_spec [OF dist rng] obtain ar where
    put: "np_put ?z (map fst ?d) (map snd ?d) = Inr ar" and
    len: "length ar = length ?z" and
    nth: "\<forall>j < length ?z. ar ! j = (case map_of ?d (int j) of Some v \<Rightarrow> v | None \<Rightarrow> ?z ! j)"
    by blast
  have km: "np_max (map fst ?d) = Inr M"
    unfolding keys by (simp add: np_max_def fold_max_upto [OF assms])
  have m: "mapping_ar ?d = Inr ar"
    unfolding mapping_ar_def Let_def km using assms put by simp
  have z: "ar ! 0 = 0" using nth assms by simp
  have "ar ! nat i = f i" if "i \<in> {1..M}" for i
  proof -
    from that have "nat i < length ?z" by simp
    with nth have "ar ! nat i = (case map_of ?d (int (nat i)) of Some v \<Rightarrow> v | None \<Rightarrow> ?z ! nat i)"
      by blast
    moreover have "map_of ?d (int (nat i)) = Some (f i)"
      using that by (simp add: map_of_map_restrict)
    ultimately show ?thesis by simp
  qed
  with m len z show ?thesis by auto
qed

lemma mapping_ar_root: "mapping_ar [(0, 0)] = Inr [0]"
  by (simp add: mapping_ar_def np_max_def np_index_def)

lemma np_max_total: "xs \<noteq> [] \<Longrightarrow> \<exists>M. np_max xs = Inr M"
  by (cases xs) (simp_all add: np_max_def)

text \<open>
  C1 (as amended). For a label volume of non-negative ids with largest id \<open>M\<close>, a metric
  table (a mapping: no id twice) and a correction factor \<open>c\<close>, the Lookup Array that
  \<^verbatim>\<open>make_heatmap_fig\<close> builds has \<open>M + 1\<close> entries; entry 0 is 0; for every \<open>i\<close> in
  \<open>1..M\<close> the entry is the table's value for \<open>i\<close> times \<open>c\<close> when the table has id \<open>i\<close>
  and 0 when it has not; rows whose id exceeds \<open>M\<close> raise nothing and change nothing:
  the table without them gives the same dictionary.
\<close>

theorem lookup_array_entries:
  assumes "np_max (ravel anno) = Inr M" and "0 \<le> M" and "distinct (map fst counts)"
  shows "\<exists>d ar. make_counts_dict anno (scale_column counts c) = Inr d \<and> mapping_ar d = Inr ar \<and>
           length ar = nat (M + 1) \<and> ar ! 0 = 0 \<and>
           (\<forall>i \<in> {1..M}. ar ! nat i = (case map_of counts i of None \<Rightarrow> 0 | Some v \<Rightarrow> v * c)) \<and>
           make_counts_dict anno (scale_column (filter (\<lambda>(j, v). j \<le> M) counts) c) = Inr d"
proof -
  let ?s = "scale_column counts c"
  let ?t = "scale_column (filter (\<lambda>(j, v). j \<le> M) counts) c"
  let ?f = "\<lambda>i. case map_of ?s i of None \<Rightarrow> 0 | Some v \<Rightarrow> v"
  let ?d = "(0, 0) # map (\<lambda>i. (i, ?f i)) [1..M]"
  have ds: "distinct (map fst ?s)" using assms(3) by (simp add: map_fst_scale_column)
  have dt: "distinct (map fst ?t)"
    using assms(3) by (simp add: map_fst_scale_column distinct_map_filter)
  have d: "make_counts_dict anno ?s = Inr ?d" by (rule make_counts_dict_eq [OF assms(1,2) ds])
  have same: "map (\<lambda>i. (i, case map_of ?t i of None \<Rightarrow> 0 | Some v \<Rightarrow> v)) [1..M] = map (\<lambda>i. (i, ?f i)) [1..M]"
    by (rule map_cong) (auto simp: map_of_scale_column map_of_filter_le)
  have t: "make_counts_dict anno ?t = Inr ?d"
    using make_counts_dict_eq [OF assms(1,2) dt] same by simp
  from mapping_ar_dense [OF assms(2), of ?f] obtain ar where
    ar: "mapping_ar ?d = Inr ar" "length ar = nat (M + 1)" "ar ! 0 = 0"
      "\<forall>i \<in> {1..M}. ar ! nat i = ?f i"
    by blast
  have "\<forall>i \<in> {1..M}. ar ! nat i = (case map_of counts i of None \<Rightarrow> 0 | Some v \<Rightarrow> v * c)"
    using ar(4) by (auto simp: map_of_scale_column split: option.splits)
  with d t ar(1,2,3) show ?thesis by blast
qed

theorem lookup_array_entries_witness:
  "\<exists>d ar. make_counts_dict [[[0, 2], [1, 1]]] (scale_column [(1, 10), (7, 3), (0, 4)] 2) = Inr d \<and>
     mapping_ar d = Inr ar \<and> length ar = 3 \<and> ar ! 0 = 0 \<and> ar ! 1 = 20 \<and> ar ! 2 = 0 \<and>
     make_counts_dict [[[0, 2], [1, 1]]] (scale_column [(1, 10), (0, 4)] 2) = Inr d"
proof -
  have h1: "np_max (ravel [[[0, 2], [1, 1]]]) = Inr 2" by (simp add: np_max_def ravel_def)
  have h2: "(0::int) \<le> 2" by simp
  have h3: "distinct (map fst [(1::int, 10::rat), (7, 3), (0, 4)])" by simp
  from lookup_array_entries [OF h1 h2 h3, of 2] obtain d ar where
    r: "make_counts_dict [[[0, 2], [1, 1]]] (scale_column [(1, 10), (7, 3), (0, 4)] 2) = Inr d"
       "mapping_ar d = Inr ar" "length ar = nat (2 + 1)" "ar ! 0 = 0"
       "\<forall>i \<in> {1..2}. ar ! nat i = (case map_of [(1::int, 10::rat), (7, 3), (0, 4)] i of None \<Rightarrow> 0 | Some v \<Rightarrow> v * 2)"
       "make_counts_dict [[[0, 2], [1, 1]]] (scale_column (filter (\<lambda>(j, v). j \<le> 2) [(1, 10), (7, 3), (0, 4)]) 2) = Inr d"
    by blast
  from r(5) have "ar ! nat 1 = (case map_of [(1::int, 10::rat), (7, 3), (0, 4)] 1 of None \<Rightarrow> 0 | Some v \<Rightarrow> v * 2)"
    by (rule bspec) simp
  then have e1: "ar ! 1 = 20" by simp
  from r(5) have "ar ! nat 2 = (case map_of [(1::int, 10::rat), (7, 3), (0, 4)] 2 of None \<Rightarrow> 0 | Some v \<Rightarrow> v * 2)"
    by (rule bspec) simp
  then have e2: "ar ! 2 = 0" by simp
  from r(1,2,3,4,6) e1 e2 show ?thesis by simp
qed

text \<open>
  C1 as the claim states it fails at index 0: a table row for id 0 is present, and the
  entry is 0, not the row's value times \<open>c\<close> (here \<open>5 * 2\<close>).
\<close>

theorem lookup_array_root_counterexample:
  "make_counts_dict [[[0, 1]]] (scale_column [(0, 5), (1, 7)] 2) = Inr [(0, 0), (1, 14)] \<and>
   mapping_ar [(0, 0), (1, 14)] = Inr [0, 14] \<and>
   map_of [(0::int, 5::rat), (1, 7)] 0 = Some 5 \<and> [0, 14::rat] ! 0 \<noteq> 5 * 2"
  by (simp add: make_counts_dict_def scale_column_def ravel_def np_max_def reindex_def fillna_def
      upto_rec1 mapping_ar_def np_index_def eval_nat_numeral)

text \<open>
  C2. For every metric table (a mapping: no id twice) and every label volume that holds a
  voxel, the Lookup Array is built and its entry at index 0 is 0, also when the table's
  row for id 0 carries another value: line 126 overwrites it.
\<close>

theorem lookup_array_root_zero:
  assumes "ravel anno \<noteq> []" and "distinct (map fst counts)"
  shows "\<exists>d ar. make_counts_dict anno (scale_column counts c) = Inr d \<and> mapping_ar d = Inr ar \<and>
           ar \<noteq> [] \<and> ar ! 0 = 0"
proof -
  from np_max_total [OF assms(1)] obtain M where M: "np_max (ravel anno) = Inr M" by blast
  have ds: "distinct (map fst (scale_column counts c))"
    using assms(2) by (simp add: map_fst_scale_column)
  show ?thesis
  proof (cases "0 \<le> M")
    case True
    let ?f = "\<lambda>i. case map_of (scale_column counts c) i of None \<Rightarrow> 0 | Some v \<Rightarrow> v"
    from mapping_ar_dense [OF True, of ?f] obtain ar where
      "mapping_ar ((0, 0) # map (\<lambda>i. (i, ?f i)) [1..M]) = Inr ar" "length ar = nat (M + 1)" "ar ! 0 = 0"
      by blast
    moreover from this(2) True have "ar \<noteq> []" by auto
    ultimately show ?thesis using make_counts_dict_eq [OF M True ds] by blast
  next
    case False
    then have "make_counts_dict anno (scale_column counts c) = Inr [(0, 0)]"
      using make_counts_dict_neg [OF M] by simp
    then show ?thesis using mapping_ar_root by auto
  qed
qed

theorem lookup_array_root_zero_witness:
  "\<exists>d ar. make_counts_dict [[[0, 1]]] (scale_column [(0, 5), (1, 7)] 2) = Inr d \<and> mapping_ar d = Inr ar \<and>
           ar \<noteq> [] \<and> ar ! 0 = 0 \<and> map_of [(0::int, 5::rat), (1, 7)] 0 = Some 5"
  using lookup_array_root_zero [of "[[[0, 1]]]" "[(0, 5), (1, 7)]" 2]
  by (simp add: ravel_def)

section \<open>Properties of the rendered slice\<close>

lemma sequence_map_Inr:
  "(\<And>x. x \<in> set xs \<Longrightarrow> f x = Inr (g x)) \<Longrightarrow> sequence (map f xs) = Inr (map g xs)"
  by (induction xs) auto

lemma np_getitem_in_range:
  "0 \<le> l \<Longrightarrow> l < int (length ar) \<Longrightarrow> np_getitem ar l = Inr (ar ! nat l)"
  by (simp add: np_getitem_def np_index_def)

lemma np_take_in_range:
  assumes "\<And>row l. row \<in> set idx \<Longrightarrow> l \<in> set row \<Longrightarrow> 0 \<le> l \<and> l < int (length ar)"
  shows "np_take ar idx = Inr (map (map (\<lambda>l. ar ! nat l)) idx)"
  unfolding np_take_def
proof (rule sequence_map_Inr)
  fix row assume row: "row \<in> set idx"
  show "sequence (map (np_getitem ar) row) = Inr (map (\<lambda>l. ar ! nat l) row)"
    by (rule sequence_map_Inr) (use assms [OF row] in \<open>simp add: np_getitem_in_range\<close>)
qed

lemma fold_max_ge: "x \<in> set (a # xs) \<Longrightarrow> x \<le> fold max xs (a::int)"
proof -
  assume "x \<in> set (a # xs)"
  then have "x \<le> Max (set (a # xs))" by (intro Max_ge) simp_all
  then show ?thesis by (simp only: Max.set_eq_fold)
qed

lemma np_max_ge: "np_max xs = Inr M \<Longrightarrow> x \<in> set xs \<Longrightarrow> x \<le> M"
  using fold_max_ge by (cases xs) (fastforce simp: np_max_def)+

lemma np_getitem_mem: "np_getitem xs i = Inr x \<Longrightarrow> x \<in> set xs"
  by (auto simp: np_getitem_def np_index_def split: if_splits)

lemma slice_labels_in_volume:
  "anno_slice \<in> set anno \<Longrightarrow> row \<in> set anno_slice \<Longrightarrow> l \<in> set row \<Longrightarrow> l \<in> set (ravel anno)"
  by (auto simp: ravel_def)

lemma example_rendered:
  "make_counts_dict [example_slice] (scale_column [(1, 10), (2, 20), (3, 0)] 1)
     = Inr [(0, 0), (1, 10), (2, 20), (3, 0)] \<and>
   mapping_ar [(0, 0), (1, 10), (2, 20), (3, 0)] = Inr [0, 10, 20, 0] \<and>
   np_take [0, 10, 20, 0] example_slice = Inr [[10, 10, 20], [10, 10, 20], [0, 0, 20]]"
  by (simp add: example_slice_def make_counts_dict_def scale_column_def ravel_def np_max_def reindex_def fillna_def
      upto_rec1 mapping_ar_def np_index_def np_take_def np_getitem_def eval_nat_numeral)

lemma np_max_mem: "np_max xs = Inr M \<Longrightarrow> M \<in> set xs"
proof (cases xs)
  case Nil
  assume "np_max xs = Inr M"
  with Nil show ?thesis by (simp add: np_max_def)
next
  case (Cons a rest)
  assume "np_max xs = Inr M"
  with Cons have "M = fold max rest a" by (simp add: np_max_def)
  also have "\<dots> = Max (set (a # rest))" by (simp only: Max.set_eq_fold)
  also have "\<dots> \<in> set (a # rest)" by (intro Max_in) simp_all
  finally show ?thesis using Cons by simp
qed

text \<open>
  C3. For a label volume of non-negative ids, a metric table (no id twice), a correction
  factor \<open>c\<close> and a slice \<^verbatim>\<open>anno[z]\<close> of the volume: indexing the Lookup Array
  elementwise by the slice raises nothing and is the Rendered Slice, the image in which
  every label is replaced by its metric times \<open>c\<close> (0 for the root id and for an id the
  table has not); this is the heatmap layer of the panel in the single-panel and in the
  multi-panel branch. In the scenario of the specification the Rendered Slice is
  \<open>[[10,10,20],[10,10,20],[0,0,20]]\<close>.
\<close>

theorem rendered_slice_by_lookup:
  assumes M: "np_max (ravel anno) = Inr M"
    and nonneg: "\<forall>l \<in> set (ravel anno). 0 \<le> l"
    and dist: "distinct (map fst counts)"
    and sl: "np_getitem anno zi = Inr anno_slice"
  shows "\<exists>d ar. make_counts_dict anno (scale_column counts c) = Inr d \<and> mapping_ar d = Inr ar \<and>
      np_take ar anno_slice = Inr (map (map (\<lambda>l. ar ! nat l)) anno_slice) \<and>
      map (map (\<lambda>l. ar ! nat l)) anno_slice =
        map (map (\<lambda>l. if l = 0 then 0 else case map_of counts l of None \<Rightarrow> 0 | Some v \<Rightarrow> v * c)) anno_slice \<and>
      (\<forall>cm b (a :: 'a heatmap_args_scheme). zs a = [zi] \<longrightarrow>
         (\<exists>p. single_panel anno d cm b a Axes = Inr p \<and> heat p = map (map (\<lambda>l. ar ! nat l)) anno_slice)) \<and>
      (\<forall>cm b (a :: 'a heatmap_args_scheme) n i.
         \<exists>p. multi_panel anno d cm b a n i zi = Inr p \<and> heat p = map (map (\<lambda>l. ar ! nat l)) anno_slice) \<and>
      (\<exists>d' ar'. make_counts_dict [example_slice] (scale_column [(1, 10), (2, 20), (3, 0)] 1) = Inr d' \<and>
         mapping_ar d' = Inr ar' \<and>
         np_take ar' example_slice = Inr [[10, 10, 20], [10, 10, 20], [0, 0, 20]])"
proof -
  let ?s = "scale_column counts c"
  let ?f = "\<lambda>i. case map_of ?s i of None \<Rightarrow> 0 | Some v \<Rightarrow> v"
  let ?d = "(0, 0) # map (\<lambda>i. (i, ?f i)) [1..M]"
  from np_max_mem [OF M] nonneg have M0: "0 \<le> M" by blast
  have ds: "distinct (map fst ?s)" using dist by (simp add: map_fst_scale_column)
  have d: "make_counts_dict anno ?s = Inr ?d" by (rule make_counts_dict_eq [OF M M0 ds])
  from mapping_ar_dense [OF M0, of ?f] obtain ar where
    ar: "mapping_ar ?d = Inr ar" "length ar = nat (M + 1)" "ar ! 0 = 0"
      "\<forall>i \<in> {1..M}. ar ! nat i = ?f i"
    by blast
  have lab: "0 \<le> l \<and> l \<le> M" if "row \<in> set anno_slice" "l \<in> set row" for row l
  proof -
    from np_getitem_mem [OF sl] that have "l \<in> set (ravel anno)"
      by (rule slice_labels_in_volume)
    with nonneg np_max_ge [OF M] show ?thesis by blast
  qed
  have take: "np_take ar anno_slice = Inr (map (map (\<lambda>l. ar ! nat l)) anno_slice)"
  proof (rule np_take_in_range)
    fix row l assume "row \<in> set anno_slice" "l \<in> set row"
    from lab [OF this] ar(2) M0 show "0 \<le> l \<and> l < int (length ar)" by simp
  qed
  have val: "ar ! nat l = (if l = 0 then 0 else case map_of counts l of None \<Rightarrow> 0 | Some v \<Rightarrow> v * c)"
    if "row \<in> set anno_slice" "l \<in> set row" for row l
  proof (cases "l = 0")
    case True
    with ar(3) show ?thesis by simp
  next
    case False
    with lab [OF that] have "l \<in> {1..M}" by simp
    with ar(4) have "ar ! nat l = ?f l" by blast
    with False show ?thesis by (simp add: map_of_scale_column split: option.splits)
  qed
  have vals: "map (map (\<lambda>l. ar ! nat l)) anno_slice =
        map (map (\<lambda>l. if l = 0 then 0 else case map_of counts l of None \<Rightarrow> 0 | Some v \<Rightarrow> v * c)) anno_slice"
    using val by (auto intro!: map_cong)
  have single: "\<exists>p. single_panel anno ?d cm b a Axes = Inr p \<and> heat p = map (map (\<lambda>l. ar ! nat l)) anno_slice"
    if "zs a = [zi]" for cm b and a :: "'a heatmap_args_scheme"
    using that sl ar(1) take by (simp add: single_panel_def np_getitem_def np_index_def)
  have multi: "\<exists>p. multi_panel anno ?d cm b a n i zi = Inr p \<and> heat p = map (map (\<lambda>l. ar ! nat l)) anno_slice"
    for cm b n i and a :: "'a heatmap_args_scheme"
    using sl ar(1) take by (simp add: multi_panel_def)
  from d ar(1) take vals single multi example_rendered show ?thesis by blast
qed

theorem rendered_slice_by_lookup_witness:
  "\<exists>d ar. make_counts_dict [example_slice] (scale_column [(1, 10), (2, 20)] 1) = Inr d \<and>
     mapping_ar d = Inr ar \<and>
     np_take ar example_slice = Inr [[10, 10, 20], [10, 10, 20], [0, 0, 20]]"
proof -
  have h1: "np_max (ravel [example_slice]) = Inr 3"
    by (simp add: example_slice_def np_max_def ravel_def)
  have h2: "\<forall>l \<in> set (ravel [example_slice]). 0 \<le> l"
    by (simp add: example_slice_def ravel_def)
  have h3: "distinct (map fst [(1::int, 10::rat), (2, 20)])" by simp
  have h4: "np_getitem [example_slice] 0 = Inr example_slice"
    by (simp add: np_getitem_def np_index_def)
  from rendered_slice_by_lookup [OF h1 h2 h3 h4, of 1] obtain d ar where
    r: "make_counts_dict [example_slice] (scale_column [(1, 10), (2, 20)] 1) = Inr d"
       "mapping_ar d = Inr ar"
       "np_take ar example_slice = Inr (map (map (\<lambda>l. ar ! nat l)) example_slice)"
       "map (map (\<lambda>l. ar ! nat l)) example_slice =
          map (map (\<lambda>l. if l = 0 then 0 else case map_of [(1::int, 10::rat), (2, 20)] l of None \<Rightarrow> 0 | Some v \<Rightarrow> v * 1)) example_slice"
    by blast
  have "map (map (\<lambda>l. if l = 0 then 0 else case map_of [(1::int, 10::rat), (2, 20)] l of None \<Rightarrow> 0 | Some v \<Rightarrow> v * 1)) example_slice
      = [[10, 10, 20], [10, 10, 20], [0, 0, 20]]"
    by (simp add: example_slice_def)
  with r show ?thesis by auto
qed

section \<open>Properties of the display bound\<close>

lemma py_round_cases: "py_round x = \<lfloor>x\<rfloor> \<or> py_round x = \<lfloor>x\<rfloor> + 1"
  by (simp add: py_round_def Let_def)

lemma py_round_mono:
  assumes "x \<le> y"
  shows "py_round x \<le> py_round y"
proof (cases "\<lfloor>x\<rfloor> = \<lfloor>y\<rfloor>")
  case True
  then show ?thesis using assms by (auto simp: py_round_def Let_def)
next
  case False
  with assms have "\<lfloor>x\<rfloor> + 1 \<le> \<lfloor>y\<rfloor>" using floor_mono [OF assms] by linarith
  moreover have "py_round x \<le> \<lfloor>x\<rfloor> + 1" using py_round_cases [of x] by auto
  moreover have "\<lfloor>y\<rfloor> \<le> py_round y" using py_round_cases [of y] by auto
  ultimately show ?thesis by linarith
qed





lemma write_one_heatmap_Inr:
  assumes "write_one_heatmap g w anno counts d fa = (Inr u, w')"
  shows "\<exists>b cm. density_bound counts (round_to fa) = Inr b \<and> custom_cmap g = Some cm \<and>
           butlast (written w') = written w \<and> written w' \<noteq> [] \<and>
           path (last (written w')) = filename fa \<and>
           map heat_vmax (panels (content (last (written w')))) = [b] \<and>
           map border_cmap_used (panels (content (last (written w')))) = [cm]"
  using assms
  by (auto simp: write_one_heatmap_def Let_def split: sum.splits option.splits)

subsection \<open>Rounding to the nearest double\<close>

lemma bit_length_bounds:
  "0 < n \<Longrightarrow> 1 \<le> bit_length n \<and> 2 ^ nat (bit_length n - 1) \<le> n \<and> n < 2 ^ nat (bit_length n)"
proof (induction n rule: bit_length.induct)
  case (1 n)
  from "1.prems" have bl: "bit_length n = 1 + bit_length (n div 2)"
    by (simp add: bit_length.simps [of n])
  show ?case
  proof (cases "n div 2 = 0")
    case True
    with "1.prems" have "n = 1" by presburger
    then show ?thesis by (simp add: bit_length.simps [of 1] bit_length.simps [of 0])
  next
    case False
    with "1.prems" have pos: "0 < n div 2" by presburger
    from "1.IH" "1.prems" pos have ih: "1 \<le> bit_length (n div 2)"
      "2 ^ nat (bit_length (n div 2) - 1) \<le> n div 2" "n div 2 < 2 ^ nat (bit_length (n div 2))"
      by simp_all
    let ?b = "bit_length (n div 2)"
    have n1: "nat (1 + ?b - 1) = Suc (nat (?b - 1))" using ih(1) by simp
    have n2: "nat (1 + ?b) = Suc (nat ?b)" using ih(1) by simp
    have "nat ?b = Suc (nat (?b - 1))" using ih(1) by simp
    then have p: "(2::int) ^ nat ?b = 2 * 2 ^ nat (?b - 1)" by simp
    have "2 * (n div 2) \<le> n" "n < 2 * (n div 2 + 1)" by presburger+
    with ih p have "2 ^ nat ?b \<le> n" "n < 2 * 2 ^ nat ?b" by linarith+
    with ih(1) show ?thesis by (simp add: bl n1 n2)
  qed
qed

lemma binade_bounds:
  assumes "0 < x"
  shows "2 powi binade x \<le> x \<and> x < 2 powi (binade x + 1)"
proof (cases "1 \<le> x")
  case True
  let ?n = "\<lfloor>x\<rfloor>"
  from True have n: "0 < ?n" by simp
  from bit_length_bounds [OF n] have b: "1 \<le> bit_length ?n"
    "2 ^ nat (bit_length ?n - 1) \<le> ?n" "?n < 2 ^ nat (bit_length ?n)" by simp_all
  have e: "binade x = bit_length ?n - 1" using True by (simp add: binade_def)
  have "(2::rat) powi binade x = of_int (2 ^ nat (bit_length ?n - 1))"
    using b(1) by (simp add: e power_int_nonneg_exp)
  also have "\<dots> \<le> of_int ?n" using b(2) by (simp only: of_int_le_iff)
  also have "\<dots> \<le> x" by simp
  finally have lo: "2 powi binade x \<le> x" .
  have "x < of_int (?n + 1)" by linarith
  also have "\<dots> \<le> of_int (2 ^ nat (bit_length ?n))"
  proof -
    from b(3) have "?n + 1 \<le> 2 ^ nat (bit_length ?n)" by simp
    then show ?thesis by (simp only: of_int_le_iff)
  qed
  also have "\<dots> = (2::rat) powi (binade x + 1)"
    using b(1) by (simp add: e power_int_nonneg_exp)
  finally show ?thesis using lo by simp
next
  case False
  let ?n = "\<lceil>1 / x\<rceil>"
  from False assms have big: "1 < 1 / x" by (simp add: field_simps)
  then have n: "0 < ?n - 1" by (simp add: less_ceiling_iff)
  let ?k = "bit_length (?n - 1)"
  from bit_length_bounds [OF n] have b: "1 \<le> ?k"
    "2 ^ nat (?k - 1) \<le> ?n - 1" "?n - 1 < 2 ^ nat ?k" by simp_all
  have e: "binade x = - ?k" using False by (simp add: binade_def)
  have "1 / x \<le> of_int ?n" by simp
  also have "\<dots> \<le> of_int (2 ^ nat ?k)"
  proof -
    from b(3) have "?n \<le> 2 ^ nat ?k" by simp
    then show ?thesis by (simp only: of_int_le_iff)
  qed
  finally have "1 / x \<le> 2 ^ nat ?k" by simp
  with assms have "1 / 2 ^ nat ?k \<le> x" by (simp add: field_simps)
  moreover have "(2::rat) powi binade x = 1 / 2 ^ nat ?k"
    using b(1) by (simp add: e power_int_minus_divide power_int_nonneg_exp)
  ultimately have lo: "2 powi binade x \<le> x" by simp
  have "(of_int (2 ^ nat (?k - 1)) :: rat) \<le> of_int (?n - 1)" using b(2) by (simp only: of_int_le_iff)
  also have "\<dots> < 1 / x" by (simp add: ceiling_correct)
  finally have "2 ^ nat (?k - 1) < 1 / x" by simp
  with assms have "x < 1 / 2 ^ nat (?k - 1)" by (simp add: field_simps)
  moreover have "(2::rat) powi (binade x + 1) = 1 / 2 ^ nat (?k - 1)"
  proof -
    have "binade x + 1 = - (?k - 1)" by (simp add: e)
    then show ?thesis using b(1) by (simp only: power_int_minus_divide) (simp add: power_int_nonneg_exp)
  qed
  ultimately show ?thesis using lo by simp
qed

lemma binade_ge: "0 < x \<Longrightarrow> 2 powi k \<le> x \<Longrightarrow> k \<le> binade x"
proof (rule ccontr)
  assume x: "0 < x" "2 powi k \<le> x" and "\<not> k \<le> binade x"
  then have "binade x + 1 \<le> k" by simp
  then have "(2::rat) powi (binade x + 1) \<le> 2 powi k" by (intro power_int_increasing) simp_all
  with binade_bounds [OF x(1)] x(2) show False by linarith
qed

lemma binade_lt: "0 < x \<Longrightarrow> x < 2 powi k \<Longrightarrow> binade x < k"
proof (rule ccontr)
  assume x: "0 < x" "x < 2 powi k" and "\<not> binade x < k"
  then have "k \<le> binade x" by simp
  then have "(2::rat) powi k \<le> 2 powi binade x" by (intro power_int_increasing) simp_all
  with binade_bounds [OF x(1)] x(2) show False by linarith
qed

lemma binade_mono: "0 < x \<Longrightarrow> x \<le> y \<Longrightarrow> binade x \<le> binade y"
proof -
  assume x: "0 < x" "x \<le> y"
  with binade_bounds [OF x(1)] have "2 powi binade x \<le> y" by linarith
  with x show ?thesis by (intro binade_ge) simp_all
qed

lemma py_round_of_int: "py_round (of_int n) = n"
  by (simp add: py_round_def)

lemma ulp_pos: "0 < ulp x"
  by (simp add: ulp_def)

lemma ulp_times: "2 powi 52 * ulp x = 2 powi max (binade x) (- 1022)"
proof -
  have "(2::rat) powi (52 + (max (binade x) (- 1022) - 52)) = 2 powi 52 * 2 powi (max (binade x) (- 1022) - 52)"
    by (rule power_int_add) simp
  then show ?thesis by (simp add: ulp_def)
qed

lemma nearest_double_pos: "0 < x \<Longrightarrow> nearest_double x = of_int (py_round (x / ulp x)) * ulp x"
  by (simp add: nearest_double_def)

lemma nearest_double_upper:
  assumes "0 < x"
  shows "nearest_double x \<le> 2 * 2 powi max (binade x) (- 1022)"
proof -
  let ?E = "max (binade x) (- 1022)"
  have "x < 2 powi (binade x + 1)" using binade_bounds [OF assms] by simp
  also have "\<dots> \<le> 2 powi (?E + 1)" by (intro power_int_increasing) simp_all
  also have "\<dots> = 2 * 2 powi ?E" by (simp add: power_int_add)
  also have "\<dots> = of_int (2 ^ 53) * ulp x" using ulp_times [of x] by simp
  finally have "x / ulp x \<le> of_int (2 ^ 53)" using ulp_pos [of x] by (simp add: field_simps)
  then have "py_round (x / ulp x) \<le> py_round (of_int (2 ^ 53))" by (rule py_round_mono)
  then have "py_round (x / ulp x) \<le> 2 ^ 53" by (simp only: py_round_of_int)
  then have "(of_int (py_round (x / ulp x)) :: rat) \<le> of_int (2 ^ 53)" by (simp only: of_int_le_iff)
  then have "of_int (py_round (x / ulp x)) * ulp x \<le> of_int (2 ^ 53) * ulp x"
    using ulp_pos [of x] by (simp only: mult_le_cancel_right_pos)
  also have "\<dots> = 2 * 2 powi ?E" using ulp_times [of x] by simp
  finally show ?thesis using assms by (simp add: nearest_double_pos)
qed

lemma nearest_double_lower:
  assumes "0 < x" and "- 1022 \<le> binade x"
  shows "2 powi binade x \<le> nearest_double x"
proof -
  have E: "max (binade x) (- 1022) = binade x" using assms(2) by simp
  have "of_int (2 ^ 52) * ulp x = 2 powi binade x" using ulp_times [of x] by (simp add: E)
  also have "\<dots> \<le> x" using binade_bounds [OF assms(1)] by simp
  finally have "of_int (2 ^ 52) \<le> x / ulp x" using ulp_pos [of x] by (simp add: field_simps)
  then have "py_round (of_int (2 ^ 52)) \<le> py_round (x / ulp x)" by (rule py_round_mono)
  then have "2 ^ 52 \<le> py_round (x / ulp x)" by (simp only: py_round_of_int)
  then have "(of_int (2 ^ 52) :: rat) \<le> of_int (py_round (x / ulp x))" by (simp only: of_int_le_iff)
  then have "of_int (2 ^ 52) * ulp x \<le> of_int (py_round (x / ulp x)) * ulp x"
    using ulp_pos [of x] by (simp only: mult_le_cancel_right_pos)
  moreover have "of_int (2 ^ 52) * ulp x = 2 powi binade x" using ulp_times [of x] by (simp add: E)
  ultimately show ?thesis using assms(1) by (simp add: nearest_double_pos)
qed

lemma nearest_double_nonneg: "0 < x \<Longrightarrow> 0 \<le> nearest_double x"
proof -
  assume x: "0 < x"
  then have "0 \<le> x / ulp x" using ulp_pos [of x] by simp
  then have "py_round 0 \<le> py_round (x / ulp x)" by (rule py_round_mono)
  then have "0 \<le> py_round (x / ulp x)" by (simp add: py_round_def)
  then show ?thesis using x ulp_pos [of x] by (simp add: nearest_double_pos)
qed

lemma nearest_double_mono_pos:
  assumes "0 < x" and "x \<le> y"
  shows "nearest_double x \<le> nearest_double y"
proof -
  let ?Ex = "max (binade x) (- 1022)" and ?Ey = "max (binade y) (- 1022)"
  from assms have y: "0 < y" by simp
  from binade_mono [OF assms] have le: "?Ex \<le> ?Ey" by simp
  show ?thesis
  proof (cases "?Ex = ?Ey")
    case True
    then have u: "ulp x = ulp y" by (simp add: ulp_def)
    from assms(2) have "x / ulp y \<le> y / ulp y" using ulp_pos [of y] by (simp add: divide_right_mono)
    then have "py_round (x / ulp y) \<le> py_round (y / ulp y)" by (rule py_round_mono)
    then have "(of_int (py_round (x / ulp y)) :: rat) \<le> of_int (py_round (y / ulp y))"
      by (simp only: of_int_le_iff)
    then have "of_int (py_round (x / ulp y)) * ulp y \<le> of_int (py_round (y / ulp y)) * ulp y"
      using ulp_pos [of y] by (simp only: mult_le_cancel_right_pos)
    then show ?thesis using assms(1) y by (simp add: nearest_double_pos u)
  next
    case False
    with le have lt: "?Ex < ?Ey" by linarith
    have "- 1022 \<le> ?Ex" by (rule max.cobounded2)
    with lt have "- 1022 < ?Ey" by linarith
    then have by': "binade y = ?Ey" "- 1022 \<le> binade y"
      by (simp_all add: max_def split: if_splits)
    have "nearest_double x \<le> 2 * 2 powi ?Ex" by (rule nearest_double_upper [OF assms(1)])
    also have "\<dots> = 2 powi (?Ex + 1)" by (simp add: power_int_add)
    also have "\<dots> \<le> 2 powi binade y"
    proof -
      from lt by'(1) have "?Ex + 1 \<le> binade y" by linarith
      then show ?thesis by (intro power_int_increasing) simp_all
    qed
    also have "\<dots> \<le> nearest_double y" by (rule nearest_double_lower [OF y by'(2)])
    finally show ?thesis .
  qed
qed

lemma nearest_double_minus: "nearest_double (- x) = - nearest_double x"
  by (simp add: nearest_double_def)

lemma nearest_double_mono:
  assumes "x \<le> y"
  shows "nearest_double x \<le> nearest_double y"
proof -
  consider "0 < x" | "x \<le> 0" "0 < y" | "y < 0" | "y = 0"
    using assms by linarith
  then show ?thesis
  proof cases
    case 1
    then show ?thesis using assms by (rule nearest_double_mono_pos)
  next
    case 2
    have "nearest_double x \<le> 0"
    proof (cases "x = 0")
      case True
      then show ?thesis by (simp add: nearest_double_def)
    next
      case False
      with 2 have "0 < - x" by simp
      from nearest_double_nonneg [OF this] show ?thesis by (simp add: nearest_double_minus)
    qed
    also have "0 \<le> nearest_double y" using 2 by (intro nearest_double_nonneg)
    finally show ?thesis .
  next
    case 3
    with assms have "0 < - y" "- y \<le> - x" by simp_all
    from nearest_double_mono_pos [OF this] show ?thesis by (simp add: nearest_double_minus)
  next
    case 4
    show ?thesis
    proof (cases "x = 0")
      case True
      with 4 show ?thesis by simp
    next
      case False
      with 4 assms have "0 < - x" by simp
      from nearest_double_nonneg [OF this] have "nearest_double x \<le> 0"
        by (simp add: nearest_double_minus)
      moreover have "nearest_double y = 0" using 4 by (simp add: nearest_double_def)
      ultimately show ?thesis by simp
    qed
  qed
qed

lemma to_double_Some_iff:
  "to_double x = Some y \<longleftrightarrow> y = nearest_double x \<and> \<bar>nearest_double x\<bar> < 2 powi 1024"
proof (cases "nearest_double x = 0")
  case True
  then show ?thesis by (auto simp: to_double_def)
next
  case False
  then have pos: "0 < \<bar>nearest_double x\<bar>" by simp
  have "(1024 \<le> binade \<bar>nearest_double x\<bar>) = (2 powi 1024 \<le> \<bar>nearest_double x\<bar>)"
  proof
    assume "1024 \<le> binade \<bar>nearest_double x\<bar>"
    then have "(2::rat) powi 1024 \<le> 2 powi binade \<bar>nearest_double x\<bar>"
      by (intro power_int_increasing) simp_all
    with binade_bounds [OF pos] show "2 powi 1024 \<le> \<bar>nearest_double x\<bar>" by linarith
  next
    assume "2 powi 1024 \<le> \<bar>nearest_double x\<bar>"
    with pos show "1024 \<le> binade \<bar>nearest_double x\<bar>" by (intro binade_ge)
  qed
  with False show ?thesis by (auto simp: to_double_def Let_def)
qed

lemma nearest_double_abs_bound:
  assumes "\<bar>x\<bar> < 2 powi k" and "- 1021 \<le> k"
  shows "\<bar>nearest_double x\<bar> \<le> 2 powi k"
proof -
  have pos: "nearest_double y \<le> 2 powi k \<and> 0 \<le> nearest_double y" if y: "0 < y" "y < 2 powi k" for y
  proof -
    from binade_lt [OF y] assms(2) have "max (binade y) (- 1022) \<le> k - 1" by simp
    then have "(2::rat) powi max (binade y) (- 1022) \<le> 2 powi (k - 1)"
      by (intro power_int_increasing) simp_all
    with nearest_double_upper [OF y(1)] have "nearest_double y \<le> 2 * 2 powi (k - 1)" by linarith
    also have "\<dots> = 2 powi k" by (simp add: power_int_diff)
    finally show ?thesis using nearest_double_nonneg [OF y(1)] by simp
  qed
  consider "x = 0" | "0 < x" | "x < 0" by linarith
  then show ?thesis
  proof cases
    case 1
    then show ?thesis by (simp add: nearest_double_def)
  next
    case 2
    with assms pos [of x] show ?thesis by simp
  next
    case 3
    with assms pos [of "- x"] show ?thesis by (simp add: nearest_double_minus)
  qed
qed

lemma to_double_in_range:
  assumes "\<bar>x\<bar> < 2 powi k" and "- 1021 \<le> k" and "k < 1024"
  shows "\<exists>y. to_double x = Some y \<and> y = nearest_double x \<and> \<bar>y\<bar> \<le> 2 powi k"
proof -
  from nearest_double_abs_bound [OF assms(1,2)] have b: "\<bar>nearest_double x\<bar> \<le> 2 powi k" .
  also have "(2::rat) powi k < 2 powi 1024" using assms(3) by (intro power_int_strict_increasing) simp_all
  finally show ?thesis using b by (simp add: to_double_Some_iff)
qed

lemma to_double_mono:
  "x \<le> y \<Longrightarrow> to_double x = Some a \<Longrightarrow> to_double y = Some b \<Longrightarrow> a \<le> b"
  by (simp add: to_double_Some_iff nearest_double_mono)

lemma to_double_between:
  assumes "0 \<le> x" and "x \<le> y" and "to_double y = Some b"
  shows "\<exists>a. to_double x = Some a \<and> 0 \<le> a \<and> a \<le> b"
proof -
  have z: "nearest_double 0 = 0" by (simp add: nearest_double_def)
  from nearest_double_mono [OF assms(1)] z have lo: "0 \<le> nearest_double x" by simp
  from nearest_double_mono [OF assms(2)] have hi: "nearest_double x \<le> nearest_double y" .
  from assms(3) have "b = nearest_double y" "\<bar>nearest_double y\<bar> < 2 powi 1024"
    by (simp_all add: to_double_Some_iff)
  with lo hi show ?thesis by (simp add: to_double_Some_iff)
qed

lemma float_1_1_pos: "0 < float_1_1" "float_1_1 < 2"
  by (simp_all add: float_1_1_def)

subsection \<open>The quotient and the bound\<close>

lemma legend_quotient_Inr:
  assumes "legend_quotient m r = Inr q"
  shows "\<exists>m_f scaled r_f. to_double m = Some m_f \<and> to_double (m_f * float_1_1) = Some scaled \<and>
           to_double r = Some r_f \<and> r_f \<noteq> 0 \<and> to_double (scaled / r_f) = Some q"
  using assms by (auto simp: legend_quotient_def split: option.splits if_splits)


lemma to_double_pos:
  assumes "0 < r" and "to_double r = Some r_f" and "r_f \<noteq> 0"
  shows "0 < r_f"
proof -
  from assms(2) have "r_f = nearest_double r" by (simp add: to_double_Some_iff)
  with nearest_double_nonneg [OF assms(1)] assms(3) show ?thesis by simp
qed

lemma legend_quotient_mono:
  assumes "0 < r" and "m1 \<le> m2" and "legend_quotient m1 r = Inr q1" and "legend_quotient m2 r = Inr q2"
  shows "q1 \<le> q2"
proof -
  from legend_quotient_Inr [OF assms(3)] obtain a1 s1 r1 where
    1: "to_double m1 = Some a1" "to_double (a1 * float_1_1) = Some s1"
       "to_double r = Some r1" "r1 \<noteq> 0" "to_double (s1 / r1) = Some q1"
    by (elim exE conjE)
  from legend_quotient_Inr [OF assms(4)] obtain a2 s2 r2 where
    2: "to_double m2 = Some a2" "to_double (a2 * float_1_1) = Some s2"
       "to_double r = Some r2" "r2 \<noteq> 0" "to_double (s2 / r2) = Some q2"
    by (elim exE conjE)
  from 1(3) 2(3) have r: "r2 = r1" by simp
  from to_double_pos [OF assms(1) 1(3,4)] have rp: "0 < r1" .
  from to_double_mono [OF assms(2) 1(1) 2(1)] have "a1 \<le> a2" .
  then have "a1 * float_1_1 \<le> a2 * float_1_1" using float_1_1_pos(1) by simp
  from to_double_mono [OF this 1(2) 2(2)] have "s1 \<le> s2" .
  then have "s1 / r1 \<le> s2 / r1" using rp by (simp add: divide_right_mono)
  from to_double_mono [OF this 1(5)] 2(5) r show ?thesis by simp
qed

lemma legend_quotient_between:
  assumes "0 < r" and "0 \<le> m1" and "m1 \<le> m2" and "legend_quotient m2 r = Inr q2"
  shows "\<exists>q1. legend_quotient m1 r = Inr q1 \<and> q1 \<le> q2"
proof -
  from legend_quotient_Inr [OF assms(4)] obtain a2 s2 r2 where
    2: "to_double m2 = Some a2" "to_double (a2 * float_1_1) = Some s2"
       "to_double r = Some r2" "r2 \<noteq> 0" "to_double (s2 / r2) = Some q2"
    by (elim exE conjE)
  from to_double_pos [OF assms(1) 2(3,4)] have rp: "0 < r2" .
  from to_double_between [OF assms(2,3) 2(1)] obtain a1 where
    a1: "to_double m1 = Some a1" "0 \<le> a1" "a1 \<le> a2" by (elim exE conjE)
  from a1(2,3) float_1_1_pos(1) have "0 \<le> a1 * float_1_1" "a1 * float_1_1 \<le> a2 * float_1_1"
    by simp_all
  from to_double_between [OF this 2(2)] obtain s1 where
    s1: "to_double (a1 * float_1_1) = Some s1" "0 \<le> s1" "s1 \<le> s2" by (elim exE conjE)
  from s1(2,3) rp have "0 \<le> s1 / r2" "s1 / r2 \<le> s2 / r2" by (simp_all add: divide_right_mono)
  from to_double_between [OF this 2(5)] obtain q1 where
    q1: "to_double (s1 / r2) = Some q1" "q1 \<le> q2" by (elim exE conjE)
  from a1(1) s1(1) 2(3,4) q1(1) have "legend_quotient m1 r = Inr q1"
    by (simp add: legend_quotient_def)
  with q1(2) show ?thesis by simp
qed

lemma legend_quotient_total:
  assumes K: "- 1021 \<le> K" "0 \<le> j" "j \<le> 1022" "K + j + 3 < 1024"
    and m: "\<bar>m\<bar> \<le> 2 powi K" and r: "2 powi (- j) \<le> r" "r \<le> 2 powi K"
  shows "\<exists>q. legend_quotient m r = Inr q"
proof -
  have s1: "(2::rat) powi K < 2 powi (K + 1)" by (intro power_int_strict_increasing) simp_all
  have pj: "(0::rat) < 2 powi (- j)" by (rule zero_less_power_int) simp
  from r(1) pj have rpos: "0 < r" by linarith
  from m s1 have "\<bar>m\<bar> < 2 powi (K + 1)" by linarith
  from to_double_in_range [OF this] K obtain m_f where
    mf: "to_double m = Some m_f" "\<bar>m_f\<bar> \<le> 2 powi (K + 1)" by auto
  have "\<bar>m_f * float_1_1\<bar> = \<bar>m_f\<bar> * float_1_1" using float_1_1_pos(1) by (simp add: abs_mult)
  also have "\<dots> \<le> 2 powi (K + 1) * float_1_1" using mf(2) float_1_1_pos(1) by (simp add: mult_right_mono)
  also have "\<dots> < 2 powi (K + 1) * 2" using float_1_1_pos(2) by (simp add: mult_strict_left_mono)
  also have "\<dots> = 2 powi (K + 2)" using power_int_add [of "2::rat" "K + 1" 1] by (simp add: add.commute)
  finally have "\<bar>m_f * float_1_1\<bar> < 2 powi (K + 2)" .
  from to_double_in_range [OF this] K obtain scaled where
    sc: "to_double (m_f * float_1_1) = Some scaled" "\<bar>scaled\<bar> \<le> 2 powi (K + 2)" by auto
  from r(2) s1 rpos have "\<bar>r\<bar> < 2 powi (K + 1)" by simp
  from to_double_in_range [OF this] K obtain r_f where
    rf: "to_double r = Some r_f" "r_f = nearest_double r" by auto
  from binade_ge [OF rpos r(1)] have br: "- j \<le> binade r" .
  with K(3) have "- 1022 \<le> binade r" by simp
  from nearest_double_lower [OF rpos this] have "2 powi binade r \<le> r_f" by (simp add: rf(2))
  moreover have "(2::rat) powi (- j) \<le> 2 powi binade r" using br by (intro power_int_increasing) simp_all
  ultimately have rlo: "2 powi (- j) \<le> r_f" by linarith
  with pj have rfpos: "0 < r_f" by linarith
  have "\<bar>scaled / r_f\<bar> = \<bar>scaled\<bar> / r_f" using rfpos by simp
  also have "\<dots> \<le> 2 powi (K + 2) / r_f" using sc(2) rfpos by (simp add: divide_right_mono)
  also have "\<dots> \<le> 2 powi (K + 2) / 2 powi (- j)"
  proof (rule divide_left_mono [OF rlo])
    show "(0::rat) \<le> 2 powi (K + 2)" by simp
    show "0 < r_f * 2 powi (- j)" using rfpos pj by (rule mult_pos_pos)
  qed
  also have "\<dots> = 2 powi (K + 2 + j)" using power_int_diff [of "2::rat" "K + 2" "- j"] by simp
  also have "\<dots> < 2 powi (K + j + 3)" by (intro power_int_strict_increasing) simp_all
  finally have "\<bar>scaled / r_f\<bar> < 2 powi (K + j + 3)" .
  from to_double_in_range [OF this] K obtain q where "to_double (scaled / r_f) = Some q" by auto
  with mf(1) sc(1) rf(1) rfpos show ?thesis by (simp add: legend_quotient_def)
qed

lemma density_bound_Inr:
  assumes "density_bound counts r = Inr b"
  shows "\<exists>m q. py_max (map snd counts) = Inr m \<and> legend_quotient m r = Inr q \<and>
           b = r * (of_int (py_round q) + 1)"
  using assms by (auto simp: density_bound_def split: sum.splits)

lemma density_bound_of_quotient:
  "py_max (map snd counts) = Inr m \<Longrightarrow> legend_quotient m r = Inr q \<Longrightarrow>
     density_bound counts r = Inr (r * (of_int (py_round q) + 1))"
  by (simp add: density_bound_def)

lemma bound_of_quotient_mono:
  assumes "0 < (r::rat)" and "q1 \<le> q2"
  shows "r * (of_int (py_round q1) + 1) \<le> r * (of_int (py_round q2) + 1)"
proof -
  from py_round_mono [OF assms(2)] have "(of_int (py_round q1) + 1 :: rat) \<le> of_int (py_round q2) + 1"
    by simp
  with assms(1) show ?thesis by (simp add: mult_left_mono)
qed




text \<open>
  C8. For a fixed \<open>round_to > 0\<close> the display bound is monotone in the maximum of the
  metric column: whenever both bounds are computed, the table with the smaller maximum
  has the smaller or equal bound; for non-negative maxima the smaller one has a bound
  whenever the larger one has; and both have one in the everyday range (maxima up to
  \<open>2^1000\<close> in absolute value, \<open>round_to\<close> between \<open>2^(-10)\<close> and \<open>2^1000\<close>). Outside it
  the float can overflow, and \<^verbatim>\<open>round\<close> raises instead of giving a bound.
\<close>

theorem display_bound_monotone:
  assumes "0 < r" and "py_max (map snd counts1) = Inr m1" and "py_max (map snd counts2) = Inr m2"
    and "m1 \<le> m2"
  shows "(\<forall>b1 b2. density_bound counts1 r = Inr b1 \<and> density_bound counts2 r = Inr b2 \<longrightarrow> b1 \<le> b2) \<and>
         (0 \<le> m1 \<longrightarrow>
            (\<forall>b2. density_bound counts2 r = Inr b2 \<longrightarrow>
               (\<exists>b1. density_bound counts1 r = Inr b1 \<and> b1 \<le> b2))) \<and>
         (\<bar>m1\<bar> \<le> 2 powi 1000 \<and> \<bar>m2\<bar> \<le> 2 powi 1000 \<and> 2 powi (- 10) \<le> r \<and> r \<le> 2 powi 1000 \<longrightarrow>
            (\<exists>b1 b2. density_bound counts1 r = Inr b1 \<and> density_bound counts2 r = Inr b2 \<and> b1 \<le> b2))"
proof (intro conjI allI impI)
  fix b1 b2
  assume b: "density_bound counts1 r = Inr b1 \<and> density_bound counts2 r = Inr b2"
  from density_bound_Inr [OF conjunct1 [OF b]] assms(2) obtain q1 where
    q1: "legend_quotient m1 r = Inr q1" "b1 = r * (of_int (py_round q1) + 1)" by auto
  from density_bound_Inr [OF conjunct2 [OF b]] assms(3) obtain q2 where
    q2: "legend_quotient m2 r = Inr q2" "b2 = r * (of_int (py_round q2) + 1)" by auto
  from legend_quotient_mono [OF assms(1,4) q1(1) q2(1)] have "q1 \<le> q2" .
  from bound_of_quotient_mono [OF assms(1) this] q1(2) q2(2) show "b1 \<le> b2" by simp
next
  fix b2
  assume m1: "0 \<le> m1" and b: "density_bound counts2 r = Inr b2"
  from density_bound_Inr [OF b] assms(3) obtain q2 where
    q2: "legend_quotient m2 r = Inr q2" "b2 = r * (of_int (py_round q2) + 1)" by auto
  from legend_quotient_between [OF assms(1) m1 assms(4) q2(1)] obtain q1 where
    q1: "legend_quotient m1 r = Inr q1" "q1 \<le> q2" by (elim exE conjE)
  from density_bound_of_quotient [OF assms(2) q1(1)] bound_of_quotient_mono [OF assms(1) q1(2)] q2(2)
  show "\<exists>b1. density_bound counts1 r = Inr b1 \<and> b1 \<le> b2" by simp
next
  assume rng: "\<bar>m1\<bar> \<le> 2 powi 1000 \<and> \<bar>m2\<bar> \<le> 2 powi 1000 \<and> 2 powi (- 10) \<le> r \<and> r \<le> 2 powi 1000"
  have r1: "\<bar>m1\<bar> \<le> 2 powi 1000" by (rule conjunct1 [OF rng])
  have r2: "\<bar>m2\<bar> \<le> 2 powi 1000" by (rule conjunct1 [OF conjunct2 [OF rng]])
  have r3: "2 powi (- 10) \<le> r" by (rule conjunct1 [OF conjunct2 [OF conjunct2 [OF rng]]])
  have r4: "r \<le> 2 powi 1000" by (rule conjunct2 [OF conjunct2 [OF conjunct2 [OF rng]]])
  have K: "- 1021 \<le> (1000::int)" "0 \<le> (10::int)" "(10::int) \<le> 1022" "(1000::int) + 10 + 3 < 1024"
    by simp_all
  from legend_quotient_total [OF K r1 r3 r4] obtain q1 where q1: "legend_quotient m1 r = Inr q1" ..
  from legend_quotient_total [OF K r2 r3 r4] obtain q2 where q2: "legend_quotient m2 r = Inr q2" ..
  from legend_quotient_mono [OF assms(1,4) q1 q2] have "q1 \<le> q2" .
  from bound_of_quotient_mono [OF assms(1) this]
    density_bound_of_quotient [OF assms(2) q1] density_bound_of_quotient [OF assms(3) q2]
  show "\<exists>b1 b2. density_bound counts1 r = Inr b1 \<and> density_bound counts2 r = Inr b2 \<and> b1 \<le> b2"
    by (intro exI conjI)
qed

theorem display_bound_monotone_witness:
  "\<exists>b1 b2. density_bound [(1, 900), (2, 1240)] 500 = Inr b1 \<and> density_bound [(1, 1900), (2, 40)] 500 = Inr b2 \<and> b1 \<le> b2"
proof -
  have h1: "(0::rat) < 500" by simp
  have h2: "py_max (map snd [(1::int, 900::rat), (2, 1240)]) = Inr 1240" by (simp add: py_max_def)
  have h3: "py_max (map snd [(1::int, 1900::rat), (2, 40)]) = Inr 1900" by (simp add: py_max_def)
  have h4: "(1240::rat) \<le> 1900" by simp
  have b2: "density_bound [(1, 1900), (2, 40)] 500 = Inr 2500" by code_simp
  from display_bound_monotone [OF h1 h2 h3 h4]
  have "0 \<le> (1240::rat) \<longrightarrow>
            (\<forall>b2. density_bound [(1, 1900), (2, 40)] 500 = Inr b2 \<longrightarrow>
               (\<exists>b1. density_bound [(1, 900), (2, 1240)] 500 = Inr b1 \<and> b1 \<le> b2))"
    by (rule conjunct1 [OF conjunct2])
  then obtain b1 where "density_bound [(1, 900), (2, 1240)] 500 = Inr b1" "b1 \<le> 2500"
    using b2 by auto
  with b2 show ?thesis by (intro exI conjI)
qed

section \<open>The layout check\<close>

lemma str_nat_digit: "n < 10 \<Longrightarrow> str_nat n = [digit_char n]"
  by (simp add: str_nat.simps)

lemma layout_message_example:
  "layout_message (PyTuple 2 4) 9 = ''(2, 4) plot layout doens't have enough subplots for 9 slices!''"
  by (simp add: layout_message_def str_int_def str_nat_digit digit_char_def eval_nat_numeral)

text \<open>
  C5. When a grid layout is given and has fewer cells than there are z-indices,
  \<^verbatim>\<open>make_heatmap_fig\<close> raises ValueError with a message that spells out the layout and
  the number of slices, and the world is as it was: no file has been read, nothing has been
  drawn, saved or shown. Nine slices on a \<open>(2, 4)\<close> layout fail this way.
\<close>

theorem layout_too_small_fails:
  assumes "fig_layout a = Some layout" and "item0 layout * item1 layout < int (length (zs a))"
  shows "make_heatmap_fig w a =
           (Inl (ValueError (str_pair layout @ '' plot layout doens't have enough subplots for ''
                   @ str_nat (length (zs a)) @ '' slices!'')), w) \<and>
         (layout = PyTuple 2 4 \<and> length (zs a) = 9 \<longrightarrow>
            make_heatmap_fig w a =
              (Inl (ValueError ''(2, 4) plot layout doens't have enough subplots for 9 slices!''), w))"
proof -
  from assms have "make_heatmap_fig w a = (Inl (ValueError (layout_message layout (length (zs a)))), w)"
    by (simp add: make_heatmap_fig_def)
  then show ?thesis using layout_message_example by (auto simp: layout_message_def)
qed

theorem layout_too_small_fails_witness:
  "make_heatmap_fig no_files nine_slices
   = (Inl (ValueError ''(2, 4) plot layout doens't have enough subplots for 9 slices!''), no_files)"
proof -
  have h1: "fig_layout nine_slices = Some (PyTuple 2 4)"
    by (simp add: nine_slices_def heatmap_defaults_def)
  have h2: "item0 (PyTuple 2 4) * item1 (PyTuple 2 4) < int (length (zs nine_slices))"
    by (simp add: nine_slices_def heatmap_defaults_def)
  have h3: "length (zs nine_slices) = 9"
    by (simp add: nine_slices_def heatmap_defaults_def)
  from layout_too_small_fails [OF h1 h2, of no_files] h3 show ?thesis by blast
qed

section \<open>Properties of the boundary mask\<close>

lemma pixel_relabel: "pixel (relabel f img) r c = map_option f (pixel img r c)"
  by (auto simp: pixel_def relabel_def Let_def)

lemma pixel_mem: "pixel img r c = Some v \<Longrightarrow> v \<in> set (concat img)"
  by (auto simp: pixel_def Let_def split: if_splits) (metis nth_mem nat_less_iff nat_int of_nat_0_le_iff)

lemma map_filter_map_option:
  "List.map_filter (\<lambda>x. map_option f (g x)) xs = map f (List.map_filter g xs)"
  by (induction xs) (auto simp: List.map_filter_def)

lemma window_relabel: "window k (relabel f img) r c = map f (window k img r c)"
proof -
  have "(\<lambda>(dr, dc). pixel (relabel f img) (int r + dr) (int c + dc))
      = (\<lambda>x. map_option f ((\<lambda>(dr, dc). pixel img (int r + dr) (int c + dc)) x))"
    by (auto simp: pixel_relabel fun_eq_iff)
  then show ?thesis unfolding window_def by (simp only: map_filter_map_option)
qed

lemma window_mem:
  assumes "v \<in> set (window k img r c)"
  shows "v \<in> set (concat img)"
proof -
  from assms obtain dr dc where "pixel img (int r + dr) (int c + dc) = Some v"
    by (auto simp: window_def List.map_filter_def)
  then show ?thesis by (rule pixel_mem)
qed

lemma find_boundaries_relabel:
  assumes "inj_on f (set (concat anno_slice))"
  shows "find_boundaries k (relabel f anno_slice) = find_boundaries k anno_slice"
proof -
  have cell: "list_ex (\<lambda>v. v \<noteq> relabel f anno_slice ! r ! c) (window k (relabel f anno_slice) r c)
      = list_ex (\<lambda>v. v \<noteq> anno_slice ! r ! c) (window k anno_slice r c)"
    if r: "r < length anno_slice" and c: "c < length (anno_slice ! r)" for r c
  proof -
    have here: "relabel f anno_slice ! r ! c = f (anno_slice ! r ! c)"
      using r c by (simp add: relabel_def)
    have centre: "anno_slice ! r ! c \<in> set (concat anno_slice)"
      using r c by (auto intro!: bexI [of _ "anno_slice ! r"])
    have "(f v \<noteq> f (anno_slice ! r ! c)) = (v \<noteq> anno_slice ! r ! c)"
      if "v \<in> set (window k anno_slice r c)" for v
      using assms window_mem [OF that] centre by (auto dest: inj_onD)
    then show ?thesis
      by (auto simp: here window_relabel list_ex_iff)
  qed
  have len: "length (relabel f anno_slice ! r) = length (anno_slice ! r)" if "r < length anno_slice" for r
    using that by (simp add: relabel_def)
  have row: "map (\<lambda>c. list_ex (\<lambda>v. v \<noteq> relabel f anno_slice ! r ! c) (window k (relabel f anno_slice) r c))
               [0..<length (relabel f anno_slice ! r)]
      = map (\<lambda>c. list_ex (\<lambda>v. v \<noteq> anno_slice ! r ! c) (window k anno_slice r c))
               [0..<length (anno_slice ! r)]"
    if r: "r \<in> set [0..<length anno_slice]" for r
  proof (rule map_cong)
    show "[0..<length (relabel f anno_slice ! r)] = [0..<length (anno_slice ! r)]"
      using r by (simp add: len)
  next
    fix c assume "c \<in> set [0..<length (anno_slice ! r)]"
    with r show "list_ex (\<lambda>v. v \<noteq> relabel f anno_slice ! r ! c) (window k (relabel f anno_slice) r c)
      = list_ex (\<lambda>v. v \<noteq> anno_slice ! r ! c) (window k anno_slice r c)"
      by (intro cell) simp_all
  qed
  have rows: "[0..<length (relabel f anno_slice)] = [0..<length anno_slice]"
    by (simp add: relabel_def)
  show ?thesis
    unfolding find_boundaries_def by (rule map_cong [OF rows]) (rule row)
qed

text \<open>
  C7. For every 2D label slice and every relabelling of region ids that is injective on
  the ids of the slice, the Boundary Mask (the pixels whose window holds another id,
  thickened by one dilation pass, the rest transparent) of the relabelled slice is the
  Boundary Mask of the slice, for either connectivity of the boundary search.
\<close>

theorem boundary_mask_relabel:
  assumes "inj_on f (set (concat anno_slice))"
  shows "boundary_mask connectivity (relabel f anno_slice) = boundary_mask connectivity anno_slice"
  unfolding boundary_mask_def by (simp only: find_boundaries_relabel [OF assms])

theorem boundary_mask_relabel_witness:
  "boundary_mask 1 (relabel swap_1_3 example_slice) = boundary_mask 1 example_slice \<and>
   relabel swap_1_3 example_slice = [[3, 3, 2], [3, 3, 2], [1, 1, 2]]"
proof -
  have "inj_on swap_1_3 (set (concat example_slice))"
    by (auto simp: example_slice_def swap_1_3_def inj_on_def split: if_splits)
  from boundary_mask_relabel [OF this, of 1]
  have "boundary_mask 1 (relabel swap_1_3 example_slice) = boundary_mask 1 example_slice" .
  moreover have "relabel swap_1_3 example_slice = [[3, 3, 2], [3, 3, 2], [1, 1, 2]]"
    by code_simp
  ultimately show ?thesis by (rule conjI)
qed

section \<open>Properties of write\_one\_heatmap\<close>


text \<open>
  C9. Two calls of \<^verbatim>\<open>write_one_heatmap\<close> that differ only in \<^verbatim>\<open>border_cmap\<close> have the
  same result and write the same image: the function never reads the parameter. The
  boundary layer of a written image is drawn with the global \<^verbatim>\<open>custom_cmap\<close>, and a
  call made while that global is not defined fails without writing.
\<close>

theorem border_cmap_ignored:
  "write_one_heatmap g w anno counts d (fa\<lparr>border_cmap := c1\<rparr>)
     = write_one_heatmap g w anno counts d (fa\<lparr>border_cmap := c2\<rparr>) \<and>
   (\<forall>u w'. write_one_heatmap g w anno counts d fa = (Inr u, w') \<longrightarrow>
      (\<exists>cm. custom_cmap g = Some cm \<and>
         map border_cmap_used (panels (content (last (written w')))) = [cm])) \<and>
   (custom_cmap g = None \<longrightarrow> (\<exists>e. write_one_heatmap g w anno counts d fa = (Inl e, w)))"
proof (intro conjI allI impI)
  show "write_one_heatmap g w anno counts d (fa\<lparr>border_cmap := c1\<rparr>)
     = write_one_heatmap g w anno counts d (fa\<lparr>border_cmap := c2\<rparr>)"
    by (simp add: write_one_heatmap_def Let_def split: sum.splits option.splits)
next
  fix u w' assume "write_one_heatmap g w anno counts d fa = (Inr u, w')"
  from write_one_heatmap_Inr [OF this] obtain cm where
    "custom_cmap g = Some cm"
    "map border_cmap_used (panels (content (last (written w')))) = [cm]"
    by (elim exE conjE)
  then show "\<exists>cm. custom_cmap g = Some cm \<and>
         map border_cmap_used (panels (content (last (written w')))) = [cm]"
    by simp
next
  assume "custom_cmap g = None"
  then show "\<exists>e. write_one_heatmap g w anno counts d fa = (Inl e, w)"
    by (auto simp: write_one_heatmap_def Let_def split: sum.splits)
qed

theorem border_cmap_ignored_witness:
  "\<exists>w'. write_one_heatmap notebook_globals no_files [[[1, 2], [2, 2]]] [(1, 900), (2, 1240)]
           [(0, 0), (1, 900), (2, 1240)] one_frame = (Inr (), w') \<and>
     map border_cmap_used (panels (content (last (written w')))) = [set_bad (get_cmap ''Greys'') 0] \<and>
     border_cmap one_frame = get_cmap ''viridis''"
proof -
  let ?r = "write_one_heatmap notebook_globals no_files [[[1, 2], [2, 2]]] [(1, 900), (2, 1240)]
           [(0, 0), (1, 900), (2, 1240)] one_frame"
  have "case ?r of (Inr u, w') \<Rightarrow> True | (Inl e, w') \<Rightarrow> False"
    by code_simp
  then obtain w' where r: "?r = (Inr (), w')"
    by (cases ?r) (auto split: sum.splits)
  from border_cmap_ignored [where g = notebook_globals and w = no_files and anno = "[[[1, 2], [2, 2]]]"
      and counts = "[(1, 900), (2, 1240)]" and d = "[(0, 0), (1, 900), (2, 1240)]" and fa = one_frame
      and ?c1.0 = "get_cmap ''viridis''" and ?c2.0 = "get_cmap ''Greys''"]
  have "\<forall>u w'. ?r = (Inr u, w') \<longrightarrow>
      (\<exists>cm. custom_cmap notebook_globals = Some cm \<and>
         map border_cmap_used (panels (content (last (written w')))) = [cm])"
    by (rule conjunct1 [OF conjunct2])
  from this [rule_format, OF r] obtain cm where "custom_cmap notebook_globals = Some cm"
    "map border_cmap_used (panels (content (last (written w')))) = [cm]"
    by (elim exE conjE)
  moreover have "custom_cmap notebook_globals = Some (set_bad (get_cmap ''Greys'') 0)"
    by (simp add: notebook_globals_def)
  moreover have "border_cmap one_frame = get_cmap ''viridis''"
    by (simp add: one_frame_def)
  ultimately show ?thesis using r by auto
qed

section \<open>Properties of the frame export\<close>


















section \<open>The two branches of make\_heatmap\_fig\<close>

text \<open>
  The panel of the single-panel branch is the panel of the loop body of the multi-panel
  branch for the same z-index, but for the translucency of the boundary layer and the
  visibility of the axes: heatmap values, colour scale, lookup and boundary mask agree.
\<close>

lemma panel_paths_compared:
  assumes "zs a = [zi]"
  shows "single_panel anno d cm b a Axes =
           map_sum id (\<lambda>q. q\<lparr>border_alpha := 4 / 10, axis_off := True\<rparr>)
             (multi_panel anno d cm b a n i zi)"
  using assms
  by (simp add: single_panel_def multi_panel_def np_getitem_def np_index_def Let_def
      split: sum.splits)

text \<open>
  C6. The claim is that the two branches produce the same per-panel output and differ
  only in how the axes are obtained. On the same slice the heatmap layers agree, but the
  single-panel branch draws the boundary layer with alpha 0.4 (line 160) and the
  multi-panel branch with alpha 0.5 (line 192); the single-panel branch also writes the
  legend with the fixed sizes 18 and 20 (lines 169--170), where the multi-panel branch
  uses \<^verbatim>\<open>legend_numsize\<close> and \<^verbatim>\<open>legend_fontsize\<close> (lines 202--203).
\<close>

theorem single_and_multi_panel_alpha:
  "map (map heat \<circ> panels) (shown (snd (make_heatmap_fig one_volume single_call))) = [[[[900, 1240], [1240, 1240]]]] \<and>
   map (map heat \<circ> panels) (shown (snd (make_heatmap_fig one_volume multi_call)))
     = [[[[900, 1240], [1240, 1240]], [[900, 1240], [1240, 1240]]]] \<and>
   map (map border_alpha \<circ> panels) (shown (snd (make_heatmap_fig one_volume single_call))) = [[4 / 10]] \<and>
   map (map border_alpha \<circ> panels) (shown (snd (make_heatmap_fig one_volume multi_call))) = [[5 / 10, 5 / 10]] \<and>
   map (tick_labelsize \<circ> cbar) (shown (snd (make_heatmap_fig one_volume single_call))) = [18] \<and>
   map (tick_labelsize \<circ> cbar) (shown (snd (make_heatmap_fig one_volume multi_call))) = [30] \<and>
   map (title_fontsize \<circ> cbar) (shown (snd (make_heatmap_fig one_volume single_call))) = [20] \<and>
   map (title_fontsize \<circ> cbar) (shown (snd (make_heatmap_fig one_volume multi_call))) = [40]"
  by code_simp

end
